theory Spec2Isabelle
  imports Complex_Main "HOL-Library.AList" "HOL-Library.Extended_Nat"
begin

section \<open>Sage Stocks: the deduplicating, priority-ordered, chunked broadcast scheduler\<close>

text \<open>
  A shallow embedding of \<^verbatim>\<open>lib/orchestration/orchestrator.ts\<close>,
  \<^verbatim>\<open>lib/orchestration/queue-storage.ts\<close>, \<^verbatim>\<open>lib/shared/error-handler.ts\<close> and
  \<^verbatim>\<open>api/cron/scheduled-analyses.ts\<close>.

  Conventions of the embedding.
  \<^item> Text is \<open>string\<close>; ticker text is taken to be ASCII, so \<open>toUpperCase\<close> changes the
    letters a to z only and \<open>trim\<close> strips blanks, tabs and line breaks.
  \<^item> A JavaScript \<open>Map\<close> keeps its keys in insertion order: it is an association list with
    distinct keys, \<open>AList.update\<close> being \<open>Map.set\<close> (an existing key keeps its place, a new
    one goes last).
  \<^item> The collaborators behind an interface (Notion, the analyzer, the Redis REST endpoint,
    the clock) are parameters: functions that say what a call returns or whether it throws.
  \<^item> An optional or possibly empty text is a \<open>string option\<close>; \<open>x || d\<close> is \<open>orElse x d\<close>.
\<close>

subsection \<open>Data model\<close>

record Subscriber =
  userId :: string
  email :: string
  tier :: string
  pageId :: string
  accessToken :: string
  notionUserId :: string
  timezone :: string
  stockAnalysesDbId :: string
  stockHistoryDbId :: string

text \<open>
  \<open>requestedAt\<close> is a \<open>Date\<close> in memory. \<open>JSON.stringify\<close> writes a \<open>Date\<close> as its ISO-8601
  text and \<open>JSON.parse\<close> reads text back as text, so a queue item that went through the
  store carries \<open>IsoText t\<close>, the text \<open>toISOString\<close> gives for the instant \<open>t\<close>
  (milliseconds since the epoch).
\<close>

datatype JSDate = DateObject int | IsoText int

text \<open>
  What the \<open>priority\<close> field of a queue item can hold: a JavaScript number, which here
  is a tier index, \<open>Infinity\<close> (\<open>Math.min\<close> of no arguments) or \<open>NaN\<close>, and, after a
  round trip through JSON, \<open>null\<close> (what \<open>JSON.stringify\<close> writes for \<open>Infinity\<close> and
  \<open>NaN\<close>).
\<close>

datatype Priority = Number enat | NaN | Null

record QueueItem =
  ticker :: string
  priority :: Priority
  subscribers :: "Subscriber list"
  requestedAt :: JSDate

record User =
  u_id :: string
  u_email :: string
  u_subscriptionTier :: "string option"
  u_accessToken :: string
  u_notionUserId :: string
  u_timezone :: "string option"
  u_stockAnalysesDbId :: "string option"
  u_stockHistoryDbId :: "string option"

text \<open>
  One page returned by the query of a user's Stock Analyses database:
  \<open>p_hasProperties\<close> is \<open>'properties' in page\<close> and \<open>p_ticker\<close> is
  \<open>page.properties.Ticker?.title?.[0]?.text?.content\<close>.
\<close>

record Page =
  p_id :: string
  p_hasProperties :: bool
  p_ticker :: "string option"

text \<open>
  What Notion answers for one user inside the \<open>try\<close> block of \<open>collectStockRequests\<close>:
  an exception (from \<open>decryptToken\<close>, \<open>databases.retrieve\<close> or \<open>dataSources.query\<close>, all
  of them before the first page is looked at), a database without a data source, or the
  decrypted token with all pages of all result batches.
\<close>

datatype UserQuery = QueryThrew | NoDataSource | QueryResults string "Page list"

type_synonym TickerMap = "(string \<times> Subscriber list) list"

subsection \<open>Text helpers\<close>

definition orElse :: "string option \<Rightarrow> string \<Rightarrow> string" where
  "orElse x d = (case x of None \<Rightarrow> d | Some s \<Rightarrow> if s = [] then d else s)"

definition falsy :: "string option \<Rightarrow> bool" where
  "falsy x = (case x of None \<Rightarrow> True | Some s \<Rightarrow> s = [])"

definition toUpperChar :: "char \<Rightarrow> char" where
  "toUpperChar c =
     (let n = (of_char c :: nat) in if 97 \<le> n \<and> n \<le> 122 then char_of (n - 32) else c)"

definition toUpperCase :: "string \<Rightarrow> string" where
  "toUpperCase s = map toUpperChar s"

definition isWhiteSpace :: "char \<Rightarrow> bool" where
  "isWhiteSpace c = (let n = (of_char c :: nat) in n = 32 \<or> (9 \<le> n \<and> n \<le> 13))"

definition trim :: "string \<Rightarrow> string" where
  "trim s = rev (dropWhile isWhiteSpace (rev (dropWhile isWhiteSpace s)))"

text \<open>The deduplication key: \<open>ticker.toUpperCase().trim()\<close>.\<close>

definition normalizeTicker :: "string \<Rightarrow> string" where
  "normalizeTicker t = trim (toUpperCase t)"

subsection \<open>Step 1: collectStockRequests\<close>

definition mkSubscriber :: "User \<Rightarrow> string \<Rightarrow> Page \<Rightarrow> Subscriber" where
  "mkSubscriber user userAccessToken page =
     \<lparr> userId = u_id user,
       email = u_email user,
       tier = orElse (u_subscriptionTier user) ''Free'',
       pageId = p_id page,
       accessToken = userAccessToken,
       notionUserId = u_notionUserId user,
       timezone = orElse (u_timezone user) ''America/Los_Angeles'',
       stockAnalysesDbId = orElse (u_stockAnalysesDbId user) [],
       stockHistoryDbId = orElse (u_stockHistoryDbId user) [] \<rparr>"

text \<open>
  \<open>if (!tickerMap.has(k)) tickerMap.set(k, []); tickerMap.get(k)!.push(sub)\<close>.
\<close>

definition addSubscriber :: "string \<Rightarrow> Subscriber \<Rightarrow> TickerMap \<Rightarrow> TickerMap" where
  "addSubscriber k sub m =
     (let m1 = (if map_of m k = None then AList.update k [] m else m)
      in case map_of m1 k of
           None \<Rightarrow> m1
         | Some subs \<Rightarrow> AList.update k (subs @ [sub]) m1)"

text \<open>The body of the loop over the pages of one user.\<close>

definition collectPage :: "User \<Rightarrow> string \<Rightarrow> Page \<Rightarrow> TickerMap \<Rightarrow> TickerMap" where
  "collectPage user userAccessToken page m =
     (if \<not> p_hasProperties page then m
      else let t = orElse (p_ticker page) []
           in if t = [] then m
              else addSubscriber (normalizeTicker t) (mkSubscriber user userAccessToken page) m)"

text \<open>The body of the loop over the users, with its \<open>try\<close>/\<open>catch\<close>.\<close>

definition collectUser :: "(User \<Rightarrow> UserQuery) \<Rightarrow> User \<Rightarrow> TickerMap \<Rightarrow> TickerMap" where
  "collectUser notion user m =
     (if falsy (u_stockAnalysesDbId user) then m
      else case notion user of
             QueryThrew \<Rightarrow> m
           | NoDataSource \<Rightarrow> m
           | QueryResults userAccessToken pages \<Rightarrow>
               fold (collectPage user userAccessToken) pages m)"

definition collectStockRequests :: "(User \<Rightarrow> UserQuery) \<Rightarrow> User list \<Rightarrow> TickerMap" where
  "collectStockRequests notion users = fold (collectUser notion) users []"

subsection \<open>Step 2: buildPriorityQueue\<close>

text \<open>The own properties of the object literal \<open>TIER_PRIORITY\<close>.\<close>

definition TIER_PRIORITY :: "string \<rightharpoonup> nat" where
  "TIER_PRIORITY = [''Pro'' \<mapsto> 1, ''Analyst'' \<mapsto> 2, ''Starter'' \<mapsto> 3, ''Free'' \<mapsto> 4]"

text \<open>
  \<open>TIER_PRIORITY\<close> is a plain object, so reading \<open>TIER_PRIORITY[key]\<close> also finds what the
  object inherits from \<open>Object.prototype\<close>: these names. Eleven of them are functions and
  \<open>__proto__\<close> is the prototype object itself.
\<close>

definition objectPrototypeNames :: "string list" where
  "objectPrototypeNames =
     [''constructor'', ''hasOwnProperty'', ''isPrototypeOf'', ''propertyIsEnumerable'',
      ''toLocaleString'', ''toString'', ''valueOf'', ''__proto__'',
      ''__defineGetter__'', ''__defineSetter__'', ''__lookupGetter__'', ''__lookupSetter__'']"

datatype Property = OwnNumber nat | Inherited | Undefined

text \<open>\<open>TIER_PRIORITY[key]\<close>.\<close>

definition tierLookup :: "string \<Rightarrow> Property" where
  "tierLookup key =
     (case TIER_PRIORITY key of
        Some n \<Rightarrow> OwnNumber n
      | None \<Rightarrow> if key \<in> set objectPrototypeNames then Inherited else Undefined)"

text \<open>
  \<open>TIER_PRIORITY[s.tier] || 99\<close> as \<open>Math.min\<close> reads it. A missing entry and the number 0
  are falsy and give 99. An inherited function or object is truthy, so it is passed on,
  and as a number it is \<open>NaN\<close>.
\<close>

definition tierNumber :: "string \<Rightarrow> Priority" where
  "tierNumber t =
     (case tierLookup t of
        OwnNumber n \<Rightarrow> if n = 0 then Number 99 else Number (enat n)
      | Inherited \<Rightarrow> NaN
      | Undefined \<Rightarrow> Number 99)"

text \<open>
  The value arithmetic reads from a priority: \<open>None\<close> is \<open>NaN\<close>, and \<open>null\<close> counts as 0.
\<close>

definition toNumber :: "Priority \<Rightarrow> enat option" where
  "toNumber p = (case p of Number n \<Rightarrow> Some n | NaN \<Rightarrow> None | Null \<Rightarrow> Some 0)"

definition minJS :: "Priority \<Rightarrow> Priority \<Rightarrow> Priority" where
  "minJS a b =
     (case toNumber a of
        None \<Rightarrow> NaN
      | Some x \<Rightarrow> (case toNumber b of None \<Rightarrow> NaN | Some y \<Rightarrow> Number (min x y)))"

text \<open>
  \<open>Math.min(...xs)\<close>: \<open>Infinity\<close> for no arguments, \<open>NaN\<close> as soon as one argument is \<open>NaN\<close>.
\<close>

definition mathMin :: "Priority list \<Rightarrow> Priority" where
  "mathMin xs = foldr minJS xs (Number \<infinity>)"

definition highestPriority :: "Subscriber list \<Rightarrow> Priority" where
  "highestPriority subs = mathMin (map (\<lambda>s. tierNumber (tier s)) subs)"

definition mkQueueItem :: "int \<Rightarrow> string \<times> Subscriber list \<Rightarrow> QueueItem" where
  "mkQueueItem now e =
     \<lparr> ticker = fst e,
       priority = highestPriority (snd e),
       subscribers = snd e,
       requestedAt = DateObject now \<rparr>"

text \<open>
  The comparator \<open>(a, b) => a.priority - b.priority\<close> as \<open>sort\<close> reads it: negative, zero
  or positive. A difference that is \<open>NaN\<close> (one side is \<open>NaN\<close>, or both are \<open>Infinity\<close>) is
  taken for 0.
\<close>

definition compareFn :: "QueueItem \<Rightarrow> QueueItem \<Rightarrow> int" where
  "compareFn a b =
     (case toNumber (priority a) of
        None \<Rightarrow> 0
      | Some x \<Rightarrow>
          (case toNumber (priority b) of
             None \<Rightarrow> 0
           | Some y \<Rightarrow> if x < y then - 1 else if y < x then 1 else 0))"

text \<open>
  The comparator is a consistent comparator for the items (ECMAScript, Array.prototype.sort):
  being equal is symmetric and transitive, being below is the converse of being above, and
  both are transitive.
\<close>

definition consistentComparator :: "QueueItem list \<Rightarrow> bool" where
  "consistentComparator xs =
     (\<forall>a \<in> set xs. \<forall>b \<in> set xs.
        (compareFn a b = 0 \<longrightarrow> compareFn b a = 0) \<and>
        (compareFn a b < 0 \<longrightarrow> compareFn b a > 0) \<and>
        (compareFn a b > 0 \<longrightarrow> compareFn b a < 0) \<and>
        (\<forall>c \<in> set xs.
           (compareFn a b = 0 \<and> compareFn b c = 0 \<longrightarrow> compareFn a c = 0) \<and>
           (compareFn a b < 0 \<and> compareFn b c < 0 \<longrightarrow> compareFn a c < 0) \<and>
           (compareFn a b > 0 \<and> compareFn b c > 0 \<longrightarrow> compareFn a c > 0)))"

text \<open>
  The stable sort by the comparator, as an insertion sort: an item goes before the first
  item it is not above. For a consistent comparator every stable sort gives this list.
\<close>

fun insortBy :: "QueueItem \<Rightarrow> QueueItem list \<Rightarrow> QueueItem list" where
  "insortBy x [] = [x]"
| "insortBy x (y # ys) = (if compareFn x y \<le> 0 then x # y # ys else y # insortBy x ys)"

definition sortBy :: "QueueItem list \<Rightarrow> QueueItem list" where
  "sortBy xs = foldr insortBy xs []"

text \<open>
  \<open>queue.sort((a, b) => a.priority - b.priority)\<close>. \<open>Array.prototype.sort\<close> is stable. Where
  the comparator is not consistent (an item with priority \<open>NaN\<close> among items of different
  priorities) the order is left to the JavaScript engine: \<open>engineOrder\<close> stands for it, the
  items coming out in the order of the ranks it gives them.
\<close>

definition arraySort :: "(QueueItem \<Rightarrow> nat) \<Rightarrow> QueueItem list \<Rightarrow> QueueItem list" where
  "arraySort engineOrder xs =
     (if consistentComparator xs then sortBy xs else sort_key engineOrder xs)"

text \<open>\<open>now\<close> is the clock's reading for \<open>new Date()\<close>.\<close>

definition buildPriorityQueue ::
  "(QueueItem \<Rightarrow> nat) \<Rightarrow> int \<Rightarrow> TickerMap \<Rightarrow> QueueItem list" where
  "buildPriorityQueue engineOrder now tickerMap =
     arraySort engineOrder (map (mkQueueItem now) tickerMap)"

subsection \<open>The requests of a cycle, as the specification words them\<close>

text \<open>
  Every tenant and every subject it requests: the pairs of a normalized subject key and a
  subscriber, in the order of the tenants and of their pages. A tenant without a database,
  or whose query fails, requests nothing; a page without a ticker is no request.
\<close>

definition pageRequests :: "User \<Rightarrow> string \<Rightarrow> Page list \<Rightarrow> (string \<times> Subscriber) list" where
  "pageRequests user tok pages =
     map (\<lambda>p. (normalizeTicker (orElse (p_ticker p) []), mkSubscriber user tok p))
         (filter (\<lambda>p. p_hasProperties p \<and> orElse (p_ticker p) [] \<noteq> []) pages)"

definition userRequests :: "(User \<Rightarrow> UserQuery) \<Rightarrow> User \<Rightarrow> (string \<times> Subscriber) list" where
  "userRequests notion user =
     (if falsy (u_stockAnalysesDbId user) then []
      else case notion user of
             QueryResults tok pages \<Rightarrow> pageRequests user tok pages
           | _ \<Rightarrow> [])"

definition allRequests :: "(User \<Rightarrow> UserQuery) \<Rightarrow> User list \<Rightarrow> (string \<times> Subscriber) list" where
  "allRequests notion users = concat (map (userRequests notion) users)"

definition addAll :: "(string \<times> Subscriber) list \<Rightarrow> TickerMap \<Rightarrow> TickerMap" where
  "addAll rs m = fold (\<lambda>r. addSubscriber (fst r) (snd r)) rs m"

definition subsOf :: "TickerMap \<Rightarrow> string \<Rightarrow> Subscriber list" where
  "subsOf m k = (case map_of m k of None \<Rightarrow> [] | Some l \<Rightarrow> l)"

definition recognizedTier :: "string \<Rightarrow> bool" where
  "recognizedTier t = (t = ''Pro'' \<or> t = ''Analyst'' \<or> t = ''Starter'' \<or> t = ''Free'')"

text \<open>
  The tier index in the words of the claims: the entry of the table for the four tiers,
  the fallback 99 for every other tier.
\<close>

definition specTierIndex :: "string \<Rightarrow> nat" where
  "specTierIndex t = (case TIER_PRIORITY t of Some n \<Rightarrow> n | None \<Rightarrow> 99)"

text \<open>No subscriber of the ticker map has a tier that is a name inherited by the table.\<close>

definition ordinaryTiers :: "TickerMap \<Rightarrow> bool" where
  "ordinaryTiers m =
     list_all (\<lambda>e. list_all (\<lambda>s. tier s \<notin> set objectPrototypeNames) (snd e)) m"

text \<open>The priorities of the items are numbers: none is \<open>NaN\<close>.\<close>

definition numericPriorities :: "QueueItem list \<Rightarrow> bool" where
  "numericPriorities xs = list_all (\<lambda>i. toNumber (priority i) \<noteq> None) xs"

text \<open>The least tier index among subscribers, \<open>Infinity\<close> when there is none.\<close>

definition leastTierIndex :: "Subscriber list \<Rightarrow> enat" where
  "leastTierIndex subs = foldr min (map (\<lambda>s. enat (specTierIndex (tier s))) subs) \<infinity>"

text \<open>The priority of an item as a number on the line from 0 to \<open>Infinity\<close> (0 for \<open>NaN\<close>).\<close>

definition priorityNumber :: "QueueItem \<Rightarrow> enat" where
  "priorityNumber item = (case toNumber (priority item) of None \<Rightarrow> 0 | Some n \<Rightarrow> n)"

subsection \<open>The world the engine acts on\<close>

text \<open>
  The Status property of a Stock Analyses page, the Stock History entries created, and a
  log of the calls made. The engine runs the tasks of the subscribers of one subject
  concurrently (\<open>Promise.allSettled\<close>); every task works on its own page with its own
  answers from Notion, so the model runs them one after the other in list order, and the
  log shows the calls of one task together.
\<close>

datatype Status = Analyzing | Complete | Error

datatype Event =
    StatusWrite string Status bool
  | AnalyzeCall string nat
  | SyncCall string nat
  | ArchiveCall string
  | Delay int

record World =
  pageStatus :: "string \<Rightarrow> Status option"
  historyEntries :: "(string \<times> string) list"
  events :: "Event list"

datatype MarketContext = MarketContext (regime: string)

record AnalysisResult =
  r_success :: bool
  r_ticker :: string
  r_error :: "string option"
  r_content :: string

datatype AnalysisOutcome = AnalysisThrew string | AnalysisReturned AnalysisResult

datatype SyncOutcome = SyncThrew string | SyncReturned "string option"

datatype ArchiveOutcome = ArchiveThrew string | ArchiveReturned "string option"

datatype Settled = Fulfilled | Rejected string

text \<open>
  The collaborators and the configuration of the engine. \<open>analyzeStockCore\<close> and
  \<open>syncToNotion\<close> are given the number of the attempt, so that a call can fail first and
  succeed later. \<open>pagesUpdate page status\<close> says whether \<open>notion.pages.update\<close> of the
  Status of that page goes through. \<open>validateAnalysisComplete\<close> is the required-fields
  check of the analyzer module.
\<close>

record Env =
  analyzeStockCore :: "QueueItem \<Rightarrow> MarketContext option \<Rightarrow> nat \<Rightarrow> AnalysisOutcome"
  validateAnalysisComplete :: "AnalysisResult \<Rightarrow> bool"
  syncToNotion :: "Subscriber \<Rightarrow> AnalysisResult \<Rightarrow> nat \<Rightarrow> SyncOutcome"
  pagesUpdate :: "string \<Rightarrow> Status \<Rightarrow> bool"
  archiveToHistory :: "Subscriber \<Rightarrow> string option \<Rightarrow> ArchiveOutcome"
  ANALYSIS_DELAY_MS :: int
  DRY_RUN :: bool

record OrchestratorMetrics =
  totalTickers :: nat
  totalSubscribers :: nat
  analyzed :: nat
  failed :: nat
  skipped :: nat
  totalBroadcasts :: nat
  successfulBroadcasts :: nat
  failedBroadcasts :: nat
  apiCallsSaved :: int

definition logEvent :: "Event \<Rightarrow> World \<Rightarrow> World" where
  "logEvent e w = w\<lparr>events := events w @ [e]\<rparr>"

text \<open>\<open>await delay(ms)\<close>.\<close>

definition delay :: "int \<Rightarrow> World \<Rightarrow> World" where
  "delay ms w = logEvent (Delay ms) w"

text \<open>
  \<open>notion.pages.update\<close> of the Status property of a page: the page changes when the call
  goes through; the boolean says whether it did (otherwise the call throws).
\<close>

definition notionPagesUpdate :: "Env \<Rightarrow> string \<Rightarrow> Status \<Rightarrow> World \<Rightarrow> bool \<times> World" where
  "notionPagesUpdate env page st w =
     (let ok = pagesUpdate env page st
      in (ok, logEvent (StatusWrite page st ok)
                (if ok then w\<lparr>pageStatus := (pageStatus w)(page \<mapsto> st)\<rparr> else w)))"

subsection \<open>error-handler.ts: setAnalysisError\<close>

text \<open>
  Status, Notes and Last Auto-Analysis are written by one \<open>pages.update\<close>; a failure of
  it is caught and not thrown on. The notification of the administrator goes to another
  database, does not block and cannot fail the caller; it is left out.
\<close>

definition setAnalysisError :: "Env \<Rightarrow> string \<Rightarrow> World \<Rightarrow> World" where
  "setAnalysisError env page w = snd (notionPagesUpdate env page Error w)"

subsection \<open>Step 3: the analysis with its retries\<close>

text \<open>\<open>s.includes(pat)\<close>.\<close>

fun includesStr :: "string \<Rightarrow> string \<Rightarrow> bool" where
  "includesStr [] pat = (pat = [])"
| "includesStr (c # cs) pat = (take (length pat) (c # cs) = pat \<or> includesStr cs pat)"

definition isGeminiRateLimitError :: "string option \<Rightarrow> bool" where
  "isGeminiRateLimitError err =
     (case err of
        None \<Rightarrow> False
      | Some e \<Rightarrow>
          if e = [] then False
          else (includesStr e ''503'' \<and> includesStr e ''overloaded'') \<or>
               (includesStr e ''429'' \<and> includesStr e ''quota''))"

definition isDigit :: "char \<Rightarrow> bool" where
  "isDigit c = (let n = (of_char c :: nat) in 48 \<le> n \<and> n \<le> 57)"

definition isNumChar :: "char \<Rightarrow> bool" where
  "isNumChar c = (isDigit c \<or> c = CHR ''.'')"

text \<open>
  \<open>error.match(/Please retry in ([\d.]+)s/)\<close>: the first place where the words are followed
  by a run of digits and dots and then an \<open>s\<close>; the result is the run. The run taken is
  the longest one, since the character after it has to be the \<open>s\<close>.
\<close>

fun matchRetry :: "string \<Rightarrow> string option" where
  "matchRetry [] = None"
| "matchRetry (c # cs) =
     (let rest = drop 16 (c # cs); run = takeWhile isNumChar rest
      in if take 16 (c # cs) = ''Please retry in '' \<and> run \<noteq> [] \<and>
            take 1 (dropWhile isNumChar rest) = ''s''
         then Some run
         else matchRetry cs)"

definition digitsValue :: "string \<Rightarrow> nat" where
  "digitsValue ds = foldl (\<lambda>a c. 10 * a + (of_char c - 48)) 0 ds"

text \<open>
  \<open>parseFloat\<close> on a run of digits and dots: the longest leading decimal numeral, \<open>NaN\<close>
  (here \<open>None\<close>) when there is none. The value is the exact decimal; the rounding of a
  double, which shows only beyond 15 significant digits, is not modelled.
\<close>

definition parseFloat :: "string \<Rightarrow> rat option" where
  "parseFloat s =
     (let ip = takeWhile isDigit s;
          r = dropWhile isDigit s;
          fp = (if take 1 r = ''.'' then takeWhile isDigit (drop 1 r) else [])
      in if ip = [] \<and> fp = [] then None
         else Some (of_nat (digitsValue ip) + of_nat (digitsValue fp) / 10 ^ length fp))"

datatype RetryAfter = NoRetryAfter | NotANumber | Seconds int

text \<open>
  \<open>Math.min(Math.ceil(seconds), 60)\<close> when the pattern matches, \<open>null\<close> otherwise;
  \<open>Math.min(NaN, 60)\<close> is \<open>NaN\<close>.
\<close>

definition extractRetryAfter :: "string option \<Rightarrow> RetryAfter" where
  "extractRetryAfter err =
     (case err of
        None \<Rightarrow> NoRetryAfter
      | Some e \<Rightarrow>
          if e = [] then NoRetryAfter
          else case matchRetry e of
                 None \<Rightarrow> NoRetryAfter
               | Some run \<Rightarrow>
                   (case parseFloat run of
                      None \<Rightarrow> NotANumber
                    | Some seconds \<Rightarrow> Seconds (min (ceiling seconds) 60)))"

definition backoffDelays :: "int list" where
  "backoffDelays = [2000, 4000, 8000]"

text \<open>
  \<open>retryAfterSeconds ? retryAfterSeconds * 1000 : backoffDelays[attempt]\<close>: \<open>null\<close>,
  \<open>NaN\<close> and 0 are falsy. Beyond the table the entry is \<open>undefined\<close>, for which
  \<open>setTimeout\<close> waits 0 ms.
\<close>

definition retryDelayMs :: "string option \<Rightarrow> nat \<Rightarrow> int" where
  "retryDelayMs err attempt =
     (let fallback = (if attempt < length backoffDelays then backoffDelays ! attempt else 0)
      in case extractRetryAfter err of
           Seconds n \<Rightarrow> if n \<noteq> 0 then n * 1000 else fallback
         | _ \<Rightarrow> fallback)"

text \<open>
  The body of the \<open>try\<close> up to the result of \<open>analyzeStockCore\<close>: reading the credentials of
  the first subscriber throws a \<open>TypeError\<close> when there is none.
\<close>

definition callAnalysis ::
  "Env \<Rightarrow> QueueItem \<Rightarrow> MarketContext option \<Rightarrow> nat \<Rightarrow> World \<Rightarrow> AnalysisOutcome \<times> World" where
  "callAnalysis env item marketContext attempt w =
     (case subscribers item of
        [] \<Rightarrow> (AnalysisThrew ''TypeError'', w)
      | firstSubscriber # _ \<Rightarrow>
          (analyzeStockCore env item marketContext attempt,
           logEvent (AnalyzeCall (ticker item) attempt) w))"

text \<open>The result built in the \<open>catch\<close> block.\<close>

definition exceptionResult :: "QueueItem \<Rightarrow> string \<Rightarrow> AnalysisResult" where
  "exceptionResult item msg =
     \<lparr> r_success = False, r_ticker = ticker item, r_error = Some msg, r_content = [] \<rparr>"

text \<open>
  The loop of \<open>analyzeWithRetry\<close> from \<open>attempt\<close> on. \<open>Inl\<close> is the error thrown after the
  loop, reached only when the loop body never runs.
\<close>

function analyzeLoop ::
  "Env \<Rightarrow> QueueItem \<Rightarrow> nat \<Rightarrow> MarketContext option \<Rightarrow> nat \<Rightarrow> World
     \<Rightarrow> (string + AnalysisResult) \<times> World" where
  "analyzeLoop env item maxRetries marketContext attempt w =
     (if \<not> attempt < maxRetries
      then (Inl ''Unexpected: retry loop completed without return'', w)
      else case callAnalysis env item marketContext attempt w of
             (AnalysisThrew msg, w1) \<Rightarrow> (Inr (exceptionResult item msg), w1)
           | (AnalysisReturned result, w1) \<Rightarrow>
               if r_success result \<or> \<not> isGeminiRateLimitError (r_error result)
               then (Inr result, w1)
               else if attempt < maxRetries - 1
               then analyzeLoop env item maxRetries marketContext (attempt + 1)
                      (delay (retryDelayMs (r_error result) attempt) w1)
               else (Inr result, w1))"
  by pat_completeness auto
termination
  by (relation "measure (\<lambda>(env, item, maxRetries, marketContext, attempt, w). maxRetries - attempt)")
     auto

definition analyzeWithRetry ::
  "Env \<Rightarrow> QueueItem \<Rightarrow> nat \<Rightarrow> MarketContext option \<Rightarrow> World
     \<Rightarrow> (string + AnalysisResult) \<times> World" where
  "analyzeWithRetry env item maxRetries marketContext w =
     analyzeLoop env item maxRetries marketContext 0 w"

subsection \<open>Step 3: status, broadcast and history of one subject\<close>

text \<open>
  \<open>setAnalyzingStatus\<close>: every failure is caught inside the task of the subscriber.
\<close>

definition setAnalyzingStatus :: "Env \<Rightarrow> Subscriber list \<Rightarrow> World \<Rightarrow> World" where
  "setAnalyzingStatus env subs w =
     fold (\<lambda>subscriber w'. snd (notionPagesUpdate env (pageId subscriber) Analyzing w')) subs w"

text \<open>
  \<open>broadcastError\<close>: one task per subscriber, each with its own \<open>try\<close>/\<open>catch\<close> around
  \<open>setAnalysisError\<close>, joined by \<open>Promise.allSettled\<close>.
\<close>

definition broadcastError :: "Env \<Rightarrow> Subscriber list \<Rightarrow> World \<Rightarrow> World" where
  "broadcastError env subs w =
     fold (\<lambda>subscriber w'. setAnalysisError env (pageId subscriber) w') subs w"

text \<open>
  One pass through the \<open>try\<close> block of \<open>broadcastToUser\<close> up to the check of
  \<open>syncResult.analysesPageId\<close>: \<open>None\<close> when the write is verified, otherwise the message
  of the error thrown.
\<close>

definition trySync ::
  "Env \<Rightarrow> Subscriber \<Rightarrow> AnalysisResult \<Rightarrow> nat \<Rightarrow> World \<Rightarrow> string option \<times> World" where
  "trySync env subscriber analysisResult attempt w =
     (let w1 = logEvent (SyncCall (pageId subscriber) attempt) w
      in case syncToNotion env subscriber analysisResult attempt of
           SyncThrew msg \<Rightarrow> (Some msg, w1)
         | SyncReturned analysesPageId \<Rightarrow>
             if falsy analysesPageId
             then (Some ''Sync failed: Stock Analyses page was not created or updated'', w1)
             else (None, w1))"

text \<open>
  The loop of \<open>broadcastToUser\<close> from \<open>attempt\<close> on. A failure of the write of Complete is
  caught and only logged. When the loop body never runs the function returns normally.
\<close>

function broadcastLoop ::
  "Env \<Rightarrow> Subscriber \<Rightarrow> AnalysisResult \<Rightarrow> nat \<Rightarrow> nat \<Rightarrow> World \<Rightarrow> Settled \<times> World" where
  "broadcastLoop env subscriber analysisResult maxRetries attempt w =
     (if \<not> attempt < maxRetries then (Fulfilled, w)
      else case trySync env subscriber analysisResult attempt w of
             (None, w1) \<Rightarrow>
               (Fulfilled, snd (notionPagesUpdate env (pageId subscriber) Complete w1))
           | (Some msg, w1) \<Rightarrow>
               if attempt < maxRetries - 1
               then broadcastLoop env subscriber analysisResult maxRetries (attempt + 1)
                      (delay 5000 w1)
               else (Rejected (''Broadcast failed: '' @ msg),
                     setAnalysisError env (pageId subscriber) w1))"
  by pat_completeness auto
termination
  by (relation "measure (\<lambda>(env, subscriber, analysisResult, maxRetries, attempt, w).
        maxRetries - attempt)") auto

definition broadcastToUser ::
  "Env \<Rightarrow> Subscriber \<Rightarrow> AnalysisResult \<Rightarrow> nat \<Rightarrow> World \<Rightarrow> Settled \<times> World" where
  "broadcastToUser env subscriber analysisResult maxRetries w =
     broadcastLoop env subscriber analysisResult maxRetries 0 w"

text \<open>
  \<open>broadcastToSubscribers\<close>: \<open>Promise.allSettled\<close> over one \<open>broadcastToUser\<close> (two
  attempts) per subscriber; the outcomes come in the order of the subscribers.
\<close>

fun broadcastToSubscribers ::
  "Env \<Rightarrow> Subscriber list \<Rightarrow> AnalysisResult \<Rightarrow> World \<Rightarrow> Settled list \<times> World" where
  "broadcastToSubscribers env [] analysisResult w = ([], w)"
| "broadcastToSubscribers env (subscriber # rest) analysisResult w =
     (case broadcastToUser env subscriber analysisResult 2 w of
        (outcome, w1) \<Rightarrow>
          (case broadcastToSubscribers env rest analysisResult w1 of
             (outcomes, w2) \<Rightarrow> (outcome # outcomes, w2)))"

text \<open>
  The \<open>uniqueSubscribers\<close> map of step 3d: the subscribers with a fulfilled broadcast, one
  per \<open>userId\<close>, the first occurrence winning, in insertion order.
\<close>

definition uniqueSubscribers :: "Subscriber list \<Rightarrow> Settled list \<Rightarrow> Subscriber list" where
  "uniqueSubscribers subs broadcastResults =
     fold (\<lambda>(subscriber, broadcastResult) acc.
             if broadcastResult = Fulfilled \<and> userId subscriber \<notin> userId ` set acc
             then acc @ [subscriber] else acc)
          (zip subs broadcastResults) []"

text \<open>
  One history task: an entry exists afterwards when \<open>archiveToHistory\<close> returns a page id;
  \<open>null\<close> and an exception are caught and logged.
\<close>

definition createHistory :: "Env \<Rightarrow> MarketContext option \<Rightarrow> Subscriber \<Rightarrow> World \<Rightarrow> World" where
  "createHistory env marketContext subscriber w =
     (let w1 = logEvent (ArchiveCall (pageId subscriber)) w
      in case archiveToHistory env subscriber (map_option regime marketContext) of
           ArchiveThrew msg \<Rightarrow> w1
         | ArchiveReturned historyPageId \<Rightarrow>
             if falsy historyPageId then w1
             else w1\<lparr>historyEntries :=
                       historyEntries w1 @ [(userId subscriber, pageId subscriber)]\<rparr>)"

definition countFulfilled :: "Settled list \<Rightarrow> nat" where
  "countFulfilled rs = length (filter (\<lambda>r. r = Fulfilled) rs)"

definition countRejected :: "Settled list \<Rightarrow> nat" where
  "countRejected rs = length (filter (\<lambda>r. r \<noteq> Fulfilled) rs)"

text \<open>
  The body of the loop of \<open>processQueue\<close> for one item. \<open>Inl\<close> is an exception leaving the
  loop. The three \<open>continue\<close> statements (dry run, failed analysis, incomplete analysis) are
  the three branches that end before step 3e.
\<close>

definition processItem ::
  "Env \<Rightarrow> MarketContext option \<Rightarrow> QueueItem \<Rightarrow> bool \<Rightarrow> World \<times> OrchestratorMetrics
     \<Rightarrow> (string + OrchestratorMetrics) \<times> World" where
  "processItem env marketContext item isLastItem st =
     (case st of (w, metrics) \<Rightarrow>
        if DRY_RUN env
        then (Inr (metrics\<lparr>analyzed := analyzed metrics + 1,
                 apiCallsSaved := apiCallsSaved metrics
                                    + (int (length (subscribers item)) - 1) * 17\<rparr>), w)
        else
          case analyzeWithRetry env item 3 marketContext
                 (setAnalyzingStatus env (subscribers item) w) of
            (Inl msg, w2) \<Rightarrow> (Inl msg, w2)
          | (Inr analysisResult, w2) \<Rightarrow>
              if \<not> r_success analysisResult
              then (Inr (metrics\<lparr>failed := failed metrics + 1\<rparr>),
                    broadcastError env (subscribers item) w2)
              else if \<not> validateAnalysisComplete env analysisResult
              then (Inr (metrics\<lparr>failed := failed metrics + 1\<rparr>),
                    broadcastError env (subscribers item) w2)
              else
                case broadcastToSubscribers env (subscribers item) analysisResult w2 of
                  (broadcastResults, w3) \<Rightarrow>
                    let successfulCount = countFulfilled broadcastResults;
                        failedCount = countRejected broadcastResults;
                        metrics' = metrics\<lparr>
                          analyzed := analyzed metrics + 1,
                          totalBroadcasts := totalBroadcasts metrics + length broadcastResults,
                          successfulBroadcasts := successfulBroadcasts metrics + successfulCount,
                          failedBroadcasts := failedBroadcasts metrics + failedCount,
                          apiCallsSaved := apiCallsSaved metrics
                                             + (int (length (subscribers item)) - 1) * 17\<rparr>;
                        w4 = (if successfulCount > 0
                              then fold (createHistory env marketContext)
                                     (uniqueSubscribers (subscribers item) broadcastResults) w3
                              else w3);
                        w5 = (if \<not> isLastItem \<and> ANALYSIS_DELAY_MS env > 0
                              then delay (ANALYSIS_DELAY_MS env) w4 else w4)
                    in (Inr metrics', w5))"

text \<open>The loop over the items of the chunk; the last one is the item with nothing after it.\<close>

fun processItems ::
  "Env \<Rightarrow> MarketContext option \<Rightarrow> QueueItem list \<Rightarrow> World \<times> OrchestratorMetrics
     \<Rightarrow> (string + OrchestratorMetrics) \<times> World" where
  "processItems env marketContext [] (w, metrics) = (Inr metrics, w)"
| "processItems env marketContext (item # rest) (w, metrics) =
     (case processItem env marketContext item (rest = []) (w, metrics) of
        (Inl msg, w') \<Rightarrow> (Inl msg, w')
      | (Inr metrics', w') \<Rightarrow> processItems env marketContext rest (w', metrics'))"

definition initialMetrics :: "QueueItem list \<Rightarrow> OrchestratorMetrics" where
  "initialMetrics queue =
     \<lparr> totalTickers = length queue,
       totalSubscribers = foldl (\<lambda>sum item. sum + length (subscribers item)) 0 queue,
       analyzed = 0, failed = 0, skipped = 0,
       totalBroadcasts = 0, successfulBroadcasts = 0, failedBroadcasts = 0,
       apiCallsSaved = 0 \<rparr>"

text \<open>
  The items of the chunk: \<open>queue[startIndex .. endIndex)\<close> with
  \<open>endIndex = Math.min(startIndex + maxItems, queue.length)\<close>.
\<close>

definition chunkItems :: "QueueItem list \<Rightarrow> int \<Rightarrow> int \<Rightarrow> QueueItem list" where
  "chunkItems queue startIndex maxItems =
     (let endIndex = min (startIndex + maxItems) (int (length queue))
      in take (nat (endIndex - startIndex)) (drop (nat startIndex) queue))"

text \<open>
  \<open>processQueue\<close>. With a negative \<open>startIndex\<close> and a chunk that is not empty, \<open>queue[i]\<close>
  is \<open>undefined\<close> and reading its ticker throws before anything is done. The elapsed time
  \<open>durationMs\<close> is not modelled.
\<close>

definition processQueue ::
  "Env \<Rightarrow> QueueItem list \<Rightarrow> MarketContext option \<Rightarrow> int \<Rightarrow> int \<Rightarrow> World
     \<Rightarrow> (string + OrchestratorMetrics) \<times> World" where
  "processQueue env queue marketContext startIndex maxItems w =
     (let endIndex = min (startIndex + maxItems) (int (length queue))
      in if startIndex < endIndex \<and> startIndex < 0 then (Inl ''TypeError'', w)
         else processItems env marketContext (chunkItems queue startIndex maxItems)
                (w, initialMetrics queue))"

text \<open>
  A failure that is retried: the analysis returned without success and its error text
  is a recognized rate-limit or overload error.
\<close>

definition transientOverload :: "AnalysisOutcome \<Rightarrow> bool" where
  "transientOverload out =
     (case out of
        AnalysisThrew msg \<Rightarrow> False
      | AnalysisReturned result \<Rightarrow>
          \<not> r_success result \<and> isGeminiRateLimitError (r_error result))"

definition outcomeError :: "AnalysisOutcome \<Rightarrow> string option" where
  "outcomeError out =
     (case out of AnalysisThrew msg \<Rightarrow> Some msg | AnalysisReturned result \<Rightarrow> r_error result)"

definition outcomeResult :: "QueueItem \<Rightarrow> AnalysisOutcome \<Rightarrow> AnalysisResult" where
  "outcomeResult item out =
     (case out of AnalysisThrew msg \<Rightarrow> exceptionResult item msg | AnalysisReturned result \<Rightarrow> result)"

text \<open>
  The delay the server suggests, in the words of the specification: the number of seconds
  parsed from the error text, when the text carries one.
\<close>

definition suggestedSeconds :: "string option \<Rightarrow> rat option" where
  "suggestedSeconds err =
     (case err of
        None \<Rightarrow> None
      | Some e \<Rightarrow> (case matchRetry e of None \<Rightarrow> None | Some run \<Rightarrow> parseFloat run))"

text \<open>
  The backoff of the specification, in milliseconds: the suggested delay capped at 60
  seconds when present, otherwise the schedule.
\<close>

definition specDelayMs :: "string option \<Rightarrow> nat \<Rightarrow> rat" where
  "specDelayMs err attempt =
     (case suggestedSeconds err of
        Some s \<Rightarrow> min s 60 * 1000
      | None \<Rightarrow> of_int (backoffDelays ! attempt))"

definition isArchiveCall :: "Event \<Rightarrow> bool" where
  "isArchiveCall e = (case e of ArchiveCall page \<Rightarrow> True | _ \<Rightarrow> False)"

text \<open>The write to the primary record is verified at this attempt.\<close>

definition syncVerified :: "Env \<Rightarrow> Subscriber \<Rightarrow> AnalysisResult \<Rightarrow> nat \<Rightarrow> bool" where
  "syncVerified env s r attempt =
     (case syncToNotion env s r attempt of
        SyncThrew msg \<Rightarrow> False
      | SyncReturned analysesPageId \<Rightarrow> \<not> falsy analysesPageId)"

text \<open>The delivery to a subscriber succeeds within its two attempts.\<close>

definition delivered :: "Env \<Rightarrow> Subscriber \<Rightarrow> AnalysisResult \<Rightarrow> bool" where
  "delivered env s r = (syncVerified env s r 0 \<or> syncVerified env s r 1)"

text \<open>The history entry of a subscriber is created when asked for.\<close>

definition archived :: "Env \<Rightarrow> MarketContext option \<Rightarrow> Subscriber \<Rightarrow> bool" where
  "archived env mc s =
     (case archiveToHistory env s (map_option regime mc) of
        ArchiveThrew msg \<Rightarrow> False
      | ArchiveReturned historyPageId \<Rightarrow> \<not> falsy historyPageId)"

definition finalStatus ::
  "Env \<Rightarrow> Subscriber \<Rightarrow> AnalysisResult \<Rightarrow> Status option \<Rightarrow> Status option" where
  "finalStatus env s r old =
     (if delivered env s r
      then (if pagesUpdate env (pageId s) Complete then Some Complete else old)
      else (if pagesUpdate env (pageId s) Error then Some Error else old))"

definition uniqueStep :: "Subscriber \<times> Settled \<Rightarrow> Subscriber list \<Rightarrow> Subscriber list" where
  "uniqueStep p acc =
     (if snd p = Fulfilled \<and> userId (fst p) \<notin> userId ` set acc then acc @ [fst p] else acc)"

text \<open>The first subscriber of each user, in the order of the list.\<close>

fun firstPerUser :: "Subscriber list \<Rightarrow> Subscriber list" where
  "firstPerUser [] = []"
| "firstPerUser (s # rest) = s # firstPerUser (filter (\<lambda>t. userId t \<noteq> userId s) rest)"

text \<open>
  The Status of a page while its subject is being analyzed: Analyzing when that write went
  through, otherwise what the page had before.
\<close>

definition statusWhileAnalyzing :: "Env \<Rightarrow> World \<Rightarrow> string \<Rightarrow> Status option" where
  "statusWhileAnalyzing env w page =
     (if pagesUpdate env page Analyzing then Some Analyzing else pageStatus w page)"

subsection \<open>queue-storage.ts: the checkpointed queue in Redis\<close>

record StoredQueue =
  sq_id :: string
  items :: "QueueItem list"
  processedCount :: int
  totalCount :: int
  createdAt :: int
  marketContext :: "MarketContext option"
  chunkSize :: int
  lastChunkAt :: "int option"

text \<open>
  What \<open>JSON.parse(JSON.stringify(x))\<close> gives back: a \<open>Date\<close> comes back as its ISO text,
  \<open>Infinity\<close> and \<open>NaN\<close> as \<open>null\<close>; text, finite numbers, arrays and plain objects come
  back as they were. \<open>createdAt\<close> and \<open>lastChunkAt\<close> are ISO text from the start (the instant is kept).
\<close>

definition jsonDate :: "JSDate \<Rightarrow> JSDate" where
  "jsonDate d = (case d of DateObject t \<Rightarrow> IsoText t | IsoText t \<Rightarrow> IsoText t)"

definition jsonNumber :: "Priority \<Rightarrow> Priority" where
  "jsonNumber p = (if p = Number \<infinity> \<or> p = NaN then Null else p)"

definition jsonQueueItem :: "QueueItem \<Rightarrow> QueueItem" where
  "jsonQueueItem item =
     item\<lparr>priority := jsonNumber (priority item), requestedAt := jsonDate (requestedAt item)\<rparr>"

definition jsonStoredQueue :: "StoredQueue \<Rightarrow> StoredQueue" where
  "jsonStoredQueue q = q\<lparr>items := map jsonQueueItem (items q)\<rparr>"

text \<open>
  The Redis REST endpoint: the values by key (each the JSON of a stored queue, kept here as
  what parsing it gives), the time to live by key, and what happens to the coming requests,
  one entry per \<open>fetch\<close>: served (\<open>None\<close>, also when the list is used up), or a fault. A
  network failure makes \<open>fetch\<close> reject; a backend error is a response with status 404 or
  500, for which \<open>fetch\<close> resolves and \<open>response.ok\<close> is false. A request that meets a fault
  changes nothing in the store.
\<close>

datatype Fault = NetworkFailure | NotFound | BackendError

record Redis =
  kv :: "string \<Rightarrow> StoredQueue option"
  ttl :: "string \<Rightarrow> nat option"
  faults :: "Fault option list"

datatype StoreError =
    NotConfigured
  | RequestFailed
  | SetFailed nat
  | GetFailed nat
  | QueueNotFound

definition QUEUE_TTL :: nat where
  "QUEUE_TTL = 86400"

text \<open>The key of the queue of a day: \<open>analysis_queue:YYYY-MM-DD\<close>.\<close>

definition queueIdOf :: "string \<Rightarrow> string" where
  "queueIdOf date = ''analysis_queue:'' @ date"

definition nextFault :: "Redis \<Rightarrow> Fault option \<times> Redis" where
  "nextFault r = (case faults r of [] \<Rightarrow> (None, r) | f # fs \<Rightarrow> (f, r\<lparr>faults := fs\<rparr>))"

text \<open>
  One \<open>fetch\<close> of a command: \<open>None\<close> when it rejects, otherwise the status of the response
  and the store after the command.
\<close>

definition redisRequest :: "(Redis \<Rightarrow> Redis) \<Rightarrow> Redis \<Rightarrow> nat option \<times> Redis" where
  "redisRequest cmd r =
     (case nextFault r of
        (Some NetworkFailure, r') \<Rightarrow> (None, r')
      | (Some NotFound, r') \<Rightarrow> (Some 404, r')
      | (Some BackendError, r') \<Rightarrow> (Some 500, r')
      | (None, r') \<Rightarrow> (Some 200, cmd r'))"

definition responseOk :: "nat \<Rightarrow> bool" where
  "responseOk status = (200 \<le> status \<and> status \<le> 299)"

text \<open>\<open>SET key value\<close> (the body is \<open>JSON.stringify(storedQueue)\<close>; SET drops the time to live).\<close>

definition cmdSet :: "string \<Rightarrow> StoredQueue \<Rightarrow> Redis \<Rightarrow> Redis" where
  "cmdSet key v r = r\<lparr>kv := (kv r)(key \<mapsto> jsonStoredQueue v), ttl := (ttl r)(key := None)\<rparr>"

definition cmdExpire :: "string \<Rightarrow> nat \<Rightarrow> Redis \<Rightarrow> Redis" where
  "cmdExpire key secs r = (if kv r key = None then r else r\<lparr>ttl := (ttl r)(key \<mapsto> secs)\<rparr>)"

definition cmdDel :: "string \<Rightarrow> Redis \<Rightarrow> Redis" where
  "cmdDel key r = r\<lparr>kv := (kv r)(key := None), ttl := (ttl r)(key := None)\<rparr>"

text \<open>
  \<open>saveQueueToRedis\<close>. \<open>configured\<close> says that \<open>REDIS_URL\<close> and \<open>REDIS_TOKEN\<close> are set;
  \<open>today\<close> and \<open>now\<close> are the date and the instant of the clock. The response of the
  \<open>expire\<close> request is not looked at.
\<close>

definition saveQueueToRedis ::
  "bool \<Rightarrow> string \<Rightarrow> int \<Rightarrow> QueueItem list \<Rightarrow> MarketContext option \<Rightarrow> int \<Rightarrow> Redis
     \<Rightarrow> (StoreError + string) \<times> Redis" where
  "saveQueueToRedis configured today now queue mc chunk redis =
     (if \<not> configured then (Inl NotConfigured, redis)
      else
        let queueId = queueIdOf today;
            storedQueue = \<lparr> sq_id = queueId, items = queue, processedCount = 0,
                            totalCount = int (length queue), createdAt = now,
                            marketContext = mc, chunkSize = chunk, lastChunkAt = None \<rparr>
        in case redisRequest (cmdSet queueId storedQueue) redis of
             (None, r1) \<Rightarrow> (Inl RequestFailed, r1)
           | (Some status, r1) \<Rightarrow>
               if \<not> responseOk status then (Inl (SetFailed status), r1)
               else case redisRequest (cmdExpire queueId QUEUE_TTL) r1 of
                      (None, r2) \<Rightarrow> (Inl RequestFailed, r2)
                    | (Some status2, r2) \<Rightarrow> (Inr queueId, r2))"

text \<open>\<open>loadQueueFromRedis\<close>: \<open>Inr None\<close> is the \<open>null\<close> returned when there is no queue.\<close>

definition loadQueueFromRedis ::
  "bool \<Rightarrow> string \<Rightarrow> string option \<Rightarrow> Redis \<Rightarrow> (StoreError + StoredQueue option) \<times> Redis" where
  "loadQueueFromRedis configured today date redis =
     (if \<not> configured then (Inl NotConfigured, redis)
      else
        let queueId = queueIdOf (orElse date today)
        in case redisRequest (\<lambda>r. r) redis of
             (None, r1) \<Rightarrow> (Inl RequestFailed, r1)
           | (Some status, r1) \<Rightarrow>
               if \<not> responseOk status
               then (if status = 404 then (Inr None, r1) else (Inl (GetFailed status), r1))
               else (Inr (kv r1 queueId), r1))"

text \<open>
  \<open>updateProcessedCount\<close>: read, change \<open>processedCount\<close> and \<open>lastChunkAt\<close>, write back. The
  response of the write is not looked at.
\<close>

definition updateProcessedCount ::
  "bool \<Rightarrow> int \<Rightarrow> string \<Rightarrow> int \<Rightarrow> Redis \<Rightarrow> (StoreError + unit) \<times> Redis" where
  "updateProcessedCount configured now queueId newCount redis =
     (if \<not> configured then (Inl NotConfigured, redis)
      else case redisRequest (\<lambda>r. r) redis of
             (None, r1) \<Rightarrow> (Inl RequestFailed, r1)
           | (Some status, r1) \<Rightarrow>
               if \<not> responseOk status then (Inl (GetFailed status), r1)
               else case kv r1 queueId of
                      None \<Rightarrow> (Inl QueueNotFound, r1)
                    | Some storedQueue \<Rightarrow>
                        (case redisRequest
                                (cmdSet queueId
                                   (storedQueue\<lparr>processedCount := newCount,
                                                lastChunkAt := Some now\<rparr>)) r1 of
                           (None, r2) \<Rightarrow> (Inl RequestFailed, r2)
                         | (Some status2, r2) \<Rightarrow> (Inr (), r2)))"

text \<open>\<open>deleteQueue\<close>: the response is not looked at.\<close>

definition deleteQueue :: "bool \<Rightarrow> string \<Rightarrow> Redis \<Rightarrow> (StoreError + unit) \<times> Redis" where
  "deleteQueue configured queueId redis =
     (if \<not> configured then (Inl NotConfigured, redis)
      else case redisRequest (cmdDel queueId) redis of
             (None, r1) \<Rightarrow> (Inl RequestFailed, r1)
           | (Some status, r1) \<Rightarrow> (Inr (), r1))"

text \<open>Saving a queue and loading it back on the same day.\<close>

definition saveThenLoad ::
  "string \<Rightarrow> int \<Rightarrow> QueueItem list \<Rightarrow> MarketContext option \<Rightarrow> int \<Rightarrow> Redis
     \<Rightarrow> StoreError + StoredQueue option" where
  "saveThenLoad today now queue mc chunk redis =
     (case saveQueueToRedis True today now queue mc chunk redis of
        (Inl e, r1) \<Rightarrow> Inl e
      | (Inr queueId, r1) \<Rightarrow> fst (loadQueueFromRedis True today None r1))"

definition itemsOf :: "StoreError + StoredQueue option \<Rightarrow> QueueItem list" where
  "itemsOf res = (case res of Inr (Some sq) \<Rightarrow> items sq | _ \<Rightarrow> [])"

subsection \<open>api/cron/scheduled-analyses.ts: the handler\<close>

text \<open>
  The configuration, the clock and the collaborators of one invocation. \<open>cronToday\<close> is the
  date and \<open>cronNow\<close> the instant the clock shows during the invocation, \<open>dayOfWeek\<close> is
  \<open>getDay()\<close>. \<open>cronEngineOrder\<close> is the order the JavaScript engine gives a
  sort whose comparator is not consistent. \<open>getAllUsers\<close> is \<open>None\<close> when the call throws. \<open>fetchMarketContext\<close> never
  throws.
\<close>

record CronEnv =
  CRON_SECRET :: string
  CHUNK_SIZE :: int
  redisConfigured :: bool
  cronToday :: string
  cronNow :: int
  dayOfWeek :: nat
  fetchMarketContext :: "MarketContext option"
  getAllUsers :: "User list option"
  cronNotion :: "User \<Rightarrow> UserQuery"
  cronEngineOrder :: "QueueItem \<Rightarrow> nat"
  cronEngine :: Env

datatype HandlerError = StoreFailure StoreError | EngineFailure string | UsersFailure

text \<open>The fields of the summary that the checkpoint decides, with the metrics of the chunk.\<close>

record Summary =
  mode :: string
  processedItems :: int
  summaryTotal :: int
  metrics :: OrchestratorMetrics
  isComplete :: bool

datatype Response =
    Unauthorized
  | MarketClosed
  | ChunkDone Summary
  | InternalError HandlerError

text \<open>\<open>s.replace(pat, '')\<close> for a pattern that is not empty: the first occurrence goes.\<close>

fun replaceFirst :: "string \<Rightarrow> string \<Rightarrow> string" where
  "replaceFirst pat [] = []"
| "replaceFirst pat (c # cs) =
     (if take (length pat) (c # cs) = pat then drop (length pat) (c # cs)
      else c # replaceFirst pat cs)"

definition holidays2025 :: "string list" where
  "holidays2025 = [''2025-01-01'', ''2025-01-20'', ''2025-02-17'', ''2025-04-18'',
     ''2025-05-26'', ''2025-07-04'', ''2025-09-01'', ''2025-11-27'', ''2025-12-25'']"

definition checkNYSEMarketDay :: "CronEnv \<Rightarrow> bool" where
  "checkNYSEMarketDay cron =
     (if dayOfWeek cron = 0 \<or> dayOfWeek cron = 6 then False
      else if cronToday cron \<in> set holidays2025 then False
      else True)"

text \<open>
  The end of both cases: the checkpoint is written, and the queue is deleted when the
  chunk completed it.
\<close>

definition checkpoint ::
  "CronEnv \<Rightarrow> string \<Rightarrow> string \<Rightarrow> int \<Rightarrow> int \<Rightarrow> OrchestratorMetrics \<Rightarrow> Redis \<Rightarrow> World
     \<Rightarrow> Response \<times> Redis \<times> World" where
  "checkpoint cron modeName queueId newProcessedCount totalItems m redis w =
     (case updateProcessedCount (redisConfigured cron) (cronNow cron) queueId newProcessedCount redis of
        (Inl e, r1) \<Rightarrow> (InternalError (StoreFailure e), r1, w)
      | (Inr u, r1) \<Rightarrow>
          let complete = (newProcessedCount \<ge> totalItems);
              summary = \<lparr> mode = modeName, processedItems = newProcessedCount,
                          summaryTotal = totalItems, metrics = m, isComplete = complete \<rparr>
          in if complete
             then (case deleteQueue (redisConfigured cron) queueId r1 of
                     (Inl e, r2) \<Rightarrow> (InternalError (StoreFailure e), r2, w)
                   | (Inr u2, r2) \<Rightarrow> (ChunkDone summary, r2, w))
             else (ChunkDone summary, r1, w))"

text \<open>The resume case: a queue exists, the next chunk is processed.\<close>

definition resumeChunk ::
  "CronEnv \<Rightarrow> StoredQueue \<Rightarrow> Redis \<Rightarrow> World \<Rightarrow> Response \<times> Redis \<times> World" where
  "resumeChunk cron existingQueue redis w =
     (let startIndex = processedCount existingQueue;
          remainingItems = totalCount existingQueue - startIndex;
          itemsToProcess = min (CHUNK_SIZE cron) remainingItems
      in case processQueue (cronEngine cron) (items existingQueue) (marketContext existingQueue)
                startIndex itemsToProcess w of
           (Inl msg, w1) \<Rightarrow> (InternalError (EngineFailure msg), redis, w1)
         | (Inr m, w1) \<Rightarrow>
             checkpoint cron ''resume'' (sq_id existingQueue) (startIndex + itemsToProcess)
               (totalCount existingQueue) m redis w1)"

text \<open>The first run of the day: collect, build, save, process the first chunk.\<close>

definition firstRun :: "CronEnv \<Rightarrow> Redis \<Rightarrow> World \<Rightarrow> Response \<times> Redis \<times> World" where
  "firstRun cron redis w =
     (case getAllUsers cron of
        None \<Rightarrow> (InternalError UsersFailure, redis, w)
      | Some users \<Rightarrow>
          let queue = buildPriorityQueue (cronEngineOrder cron) (cronNow cron)
                        (collectStockRequests (cronNotion cron) users)
          in case saveQueueToRedis (redisConfigured cron) (cronToday cron) (cronNow cron) queue
                    (fetchMarketContext cron) (CHUNK_SIZE cron) redis of
               (Inl e, r1) \<Rightarrow> (InternalError (StoreFailure e), r1, w)
             | (Inr queueId, r1) \<Rightarrow>
                 let itemsToProcess = min (CHUNK_SIZE cron) (int (length queue))
                 in case processQueue (cronEngine cron) queue (fetchMarketContext cron)
                           0 itemsToProcess w of
                      (Inl msg, w1) \<Rightarrow> (InternalError (EngineFailure msg), r1, w1)
                    | (Inr m, w1) \<Rightarrow>
                        checkpoint cron ''first_run'' queueId itemsToProcess
                          (int (length queue)) m r1 w1)"

text \<open>
  \<open>handler\<close>: the secret, the market day, then the queue of the day. Every exception ends
  in the answer 500.
\<close>

definition handler ::
  "CronEnv \<Rightarrow> string option \<Rightarrow> Redis \<Rightarrow> World \<Rightarrow> Response \<times> Redis \<times> World" where
  "handler cron authHeader redis w =
     (let providedSecret = map_option (replaceFirst ''Bearer '') authHeader
      in if falsy providedSecret \<or> providedSecret \<noteq> Some (CRON_SECRET cron)
         then (Unauthorized, redis, w)
         else if \<not> checkNYSEMarketDay cron then (MarketClosed, redis, w)
         else case loadQueueFromRedis (redisConfigured cron) (cronToday cron) None redis of
                (Inl e, r1) \<Rightarrow> (InternalError (StoreFailure e), r1, w)
              | (Inr (Some existingQueue), r1) \<Rightarrow> resumeChunk cron existingQueue r1 w
              | (Inr None, r1) \<Rightarrow> firstRun cron r1 w)"

text \<open>The items a chunk attempts: one loop iteration each, counted as analyzed or failed.\<close>

definition attempted :: "OrchestratorMetrics \<Rightarrow> nat" where
  "attempted m = analyzed m + failed m"

text \<open>The queue of a key as the store holds it: its items, its cursor and its context.\<close>

definition storedAs ::
  "Redis \<Rightarrow> string \<Rightarrow> QueueItem list \<Rightarrow> int \<Rightarrow> MarketContext option \<Rightarrow> bool" where
  "storedAs r key qitems p mc =
     (case kv r key of
        None \<Rightarrow> False
      | Some q \<Rightarrow> sq_id q = key \<and> items q = qitems \<and> processedCount q = p \<and>
                  totalCount q = int (length qitems) \<and> marketContext q = mc)"

subsection \<open>Example data\<close>

text \<open>Tenants, pages, collaborators and stores for the concrete cases below.\<close>

definition exUserA :: User where
  "exUserA = \<lparr> u_id = ''ua'', u_email = ''a@example.com'', u_subscriptionTier = Some ''Pro'',
      u_accessToken = ''enc-a'', u_notionUserId = ''na'', u_timezone = None,
      u_stockAnalysesDbId = Some ''db-a'', u_stockHistoryDbId = Some ''hist-a'' \<rparr>"

definition exUserB :: User where
  "exUserB = \<lparr> u_id = ''ub'', u_email = ''b@example.com'', u_subscriptionTier = None,
      u_accessToken = ''enc-b'', u_notionUserId = ''nb'', u_timezone = Some ''Europe/Paris'',
      u_stockAnalysesDbId = Some ''db-b'', u_stockHistoryDbId = None \<rparr>"

definition exNotion :: "User \<Rightarrow> UserQuery" where
  "exNotion u =
     (if u_id u = ''ua'' then
        QueryResults ''tok-a''
          [\<lparr> p_id = ''pa1'', p_hasProperties = True, p_ticker = Some ''msft'' \<rparr>,
           \<lparr> p_id = ''pa2'', p_hasProperties = True, p_ticker = Some '' aapl '' \<rparr>]
      else if u_id u = ''ub'' then
        QueryResults ''tok-b''
          [\<lparr> p_id = ''pb1'', p_hasProperties = True, p_ticker = Some ''AAPL'' \<rparr>,
           \<lparr> p_id = ''pb2'', p_hasProperties = True, p_ticker = None \<rparr>]
      else QueryThrew)"

definition exSubA2 :: Subscriber where
  "exSubA2 = \<lparr> userId = ''ua'', email = ''a@example.com'', tier = ''Pro'', pageId = ''pa2'',
      accessToken = ''tok-a'', notionUserId = ''na'', timezone = ''America/Los_Angeles'',
      stockAnalysesDbId = ''db-a'', stockHistoryDbId = ''hist-a'' \<rparr>"

definition exSubB1 :: Subscriber where
  "exSubB1 = \<lparr> userId = ''ub'', email = ''b@example.com'', tier = ''Free'', pageId = ''pb1'',
      accessToken = ''tok-b'', notionUserId = ''nb'', timezone = ''Europe/Paris'',
      stockAnalysesDbId = ''db-b'', stockHistoryDbId = [] \<rparr>"

definition exItemAAPL :: QueueItem where
  "exItemAAPL = \<lparr> ticker = ''AAPL'', priority = Number 1, subscribers = [exSubA2, exSubB1],
      requestedAt = DateObject 0 \<rparr>"

definition exFree :: "string \<Rightarrow> Subscriber" where
  "exFree p = \<lparr> userId = ''ub'', email = ''b@example.com'', tier = ''Free'', pageId = p,
      accessToken = ''tok-b'', notionUserId = ''nb'', timezone = ''Europe/Paris'',
      stockAnalysesDbId = ''db-b'', stockHistoryDbId = [] \<rparr>"

definition exPro :: "string \<Rightarrow> Subscriber" where
  "exPro p = \<lparr> userId = ''ua'', email = ''a@example.com'', tier = ''Pro'', pageId = p,
      accessToken = ''tok-a'', notionUserId = ''na'', timezone = ''America/Los_Angeles'',
      stockAnalysesDbId = ''db-a'', stockHistoryDbId = ''hist-a'' \<rparr>"

text \<open>An engine order for the examples; none of them leaves the order to the engine.\<close>

definition exEngineOrder :: "QueueItem \<Rightarrow> nat" where
  "exEngineOrder item = 0"

definition exTickerMap :: TickerMap where
  "exTickerMap =
     [(''MSFT'', [exFree ''p1'']),
      (''ZZZ'', [(exFree ''p4'')\<lparr>tier := ''Enterprise''\<rparr>]),
      (''GOOG'', [exFree ''p2'', exPro ''p3'']),
      (''AAPL'', [exFree ''p5''])]"

definition emptyWorld :: World where
  "emptyWorld = \<lparr> pageStatus = (\<lambda>page. None), historyEntries = [], events = [] \<rparr>"

definition exResult :: "string \<Rightarrow> bool \<Rightarrow> string option \<Rightarrow> AnalysisResult" where
  "exResult t ok err =
     \<lparr> r_success = ok, r_ticker = t, r_error = err,
       r_content = (if ok then ''analysis'' else []) \<rparr>"

text \<open>
  An analyzer for the examples: \<open>AAPL\<close> is rate-limited twice and succeeds at the third
  attempt, \<open>MSFT\<close> fails for good, \<open>TSLA\<close> comes back incomplete, every other ticker
  succeeds at once.
\<close>

definition exAnalyze :: "QueueItem \<Rightarrow> MarketContext option \<Rightarrow> nat \<Rightarrow> AnalysisOutcome" where
  "exAnalyze item mc attempt =
     (if ticker item = ''AAPL'' then
        (if attempt = 0 then
           AnalysisReturned (exResult ''AAPL'' False
             (Some ''429 quota exceeded. Please retry in 48.5s''))
         else if attempt = 1 then
           AnalysisReturned (exResult ''AAPL'' False (Some ''503 model is overloaded''))
         else AnalysisReturned (exResult ''AAPL'' True None))
      else if ticker item = ''MSFT'' then
        AnalysisReturned (exResult ''MSFT'' False (Some ''FMP request failed''))
      else if ticker item = ''TSLA'' then
        AnalysisReturned ((exResult ''TSLA'' True None)\<lparr>r_content := []\<rparr>)
      else AnalysisReturned (exResult (ticker item) True None))"

text \<open>
  A Notion for the examples: the sync of page \<open>p-bad\<close> always throws, the Status of page
  \<open>p-locked\<close> cannot be written, everything else goes through.
\<close>

definition exEnv :: Env where
  "exEnv =
     \<lparr> analyzeStockCore = exAnalyze,
       validateAnalysisComplete = (\<lambda>r. r_content r \<noteq> []),
       syncToNotion = (\<lambda>s r attempt.
          if pageId s = ''p-bad'' then SyncThrew ''Notion write failed''
          else SyncReturned (Some (pageId s))),
       pagesUpdate = (\<lambda>page st. page \<noteq> ''p-locked''),
       archiveToHistory = (\<lambda>s reg. ArchiveReturned (Some (''h-'' @ pageId s))),
       ANALYSIS_DELAY_MS = 8000,
       DRY_RUN = False \<rparr>"

definition exSub :: "string \<Rightarrow> string \<Rightarrow> string \<Rightarrow> Subscriber" where
  "exSub u t p = \<lparr> userId = u, email = u @ ''@example.com'', tier = t, pageId = p,
      accessToken = ''tok-'' @ u, notionUserId = ''n-'' @ u, timezone = ''America/Los_Angeles'',
      stockAnalysesDbId = ''db-'' @ u, stockHistoryDbId = ''hist-'' @ u \<rparr>"

definition exItem :: "string \<Rightarrow> Subscriber list \<Rightarrow> QueueItem" where
  "exItem t subs = mkQueueItem 0 (t, subs)"

definition exFailingItem :: QueueItem where
  "exFailingItem = exItem ''MSFT'' [exSub ''ua'' ''Pro'' ''p1'', exSub ''ub'' ''Free'' ''p-locked'',
      exSub ''uc'' ''Free'' ''p3'']"

definition exMetrics :: OrchestratorMetrics where
  "exMetrics = initialMetrics [exFailingItem]"

definition exBroadcastItem :: QueueItem where
  "exBroadcastItem = exItem ''GOOG''
     [exSub ''ua'' ''Pro'' ''p1'', exSub ''ub'' ''Free'' ''p-bad'', exSub ''uc'' ''Free'' ''p3'']"

text \<open>
  The same subject with its first subscriber on the page whose Status cannot be written,
  and a Notion whose history database of user \<open>uc\<close> is missing: \<open>archiveToHistory\<close> returns
  \<open>null\<close> for that user.
\<close>

definition exLockedItem :: QueueItem where
  "exLockedItem = exItem ''GOOG''
     [exSub ''ua'' ''Pro'' ''p-locked'', exSub ''ub'' ''Free'' ''p-bad'', exSub ''uc'' ''Free'' ''p3'']"

definition exNoHistoryEnv :: Env where
  "exNoHistoryEnv =
     exEnv\<lparr>archiveToHistory := (\<lambda>s reg. if userId s = ''uc'' then ArchiveReturned None
                                       else ArchiveReturned (Some (''h-'' @ pageId s)))\<rparr>"

definition emptyRedis :: Redis where
  "emptyRedis = \<lparr> kv = (\<lambda>key. None), ttl = (\<lambda>key. None), faults = [] \<rparr>"

definition exQueue :: "QueueItem list" where
  "exQueue = [exItem ''AAPL'' [exSub ''ua'' ''Pro'' ''p1'', exSub ''ub'' ''Free'' ''p2''],
              exItem ''MSFT'' [exSub ''ub'' ''Free'' ''p3'']]"

text \<open>The store after \<open>exQueue\<close> was saved on 2025-12-01.\<close>

definition exSavedRedis :: Redis where
  "exSavedRedis = snd (saveQueueToRedis True ''2025-12-01'' 0 exQueue None 8 emptyRedis)"

definition exTickers :: "string list" where
  "exTickers = [''AAPL'', ''MSFT'', ''GOOG'', ''AMZN'', ''NVDA'', ''META'', ''TSLA'', ''NFLX'',
     ''AMD'', ''INTC'', ''ORCL'', ''IBM'', ''CRM'', ''ADBE'', ''QCOM'']"

text \<open>A cron environment for the examples: one tenant with fifteen daily stocks, chunk size 8.\<close>

definition exCron :: CronEnv where
  "exCron =
     \<lparr> CRON_SECRET = ''s3cret'', CHUNK_SIZE = 8, redisConfigured = True,
       cronToday = ''2025-12-01'', cronNow = 0, dayOfWeek = 1,
       fetchMarketContext = None,
       getAllUsers = Some [exUserA],
       cronNotion = (\<lambda>u. QueryResults ''tok-a''
                  (map (\<lambda>t. \<lparr> p_id = ''p-'' @ t, p_hasProperties = True, p_ticker = Some t \<rparr>)
                     exTickers)),
       cronEngineOrder = exEngineOrder,
       cronEngine = exEnv \<rparr>"

definition exCronQueue :: "QueueItem list" where
  "exCronQueue = buildPriorityQueue (cronEngineOrder exCron) (cronNow exCron)
     (collectStockRequests (cronNotion exCron) [exUserA])"

section \<open>Verification\<close>

subsection \<open>Collecting and deduplicating\<close>

lemma addAll_simps [simp]: "addAll [] m = m" "addAll (r # rs) m = addAll rs (addSubscriber (fst r) (snd r) m)"
  "addAll (xs @ ys) m = addAll ys (addAll xs m)"
  by (simp_all add: addAll_def)

lemma collectPages_addAll:
  "fold (collectPage user tok) pages m = addAll (pageRequests user tok pages) m"
  by (induction pages arbitrary: m) (simp_all add: pageRequests_def collectPage_def Let_def)

lemma collectUser_addAll: "collectUser notion user m = addAll (userRequests notion user) m"
  by (simp add: collectUser_def userRequests_def collectPages_addAll split: UserQuery.splits)

lemma collectUsers_addAll:
  "fold (collectUser notion) users m = addAll (allRequests notion users) m"
  by (induction users arbitrary: m) (simp_all add: allRequests_def collectUser_addAll)

lemma collect_addAll: "collectStockRequests notion users = addAll (allRequests notion users) []"
  by (simp add: collectStockRequests_def collectUsers_addAll)

lemma map_of_addSubscriber:
  "map_of (addSubscriber k s m) = (map_of m)(k \<mapsto> subsOf m k @ [s])"
  by (auto simp: addSubscriber_def subsOf_def Let_def update_conv' split: option.splits)

lemma distinct_addSubscriber:
  "distinct (map fst m) \<Longrightarrow> distinct (map fst (addSubscriber k s m))"
  by (auto simp: addSubscriber_def Let_def distinct_update update_conv' split: option.splits)

lemma distinct_addAll: "distinct (map fst m) \<Longrightarrow> distinct (map fst (addAll rs m))"
  by (induction rs arbitrary: m) (simp_all add: distinct_addSubscriber)

lemma map_of_addAll:
  "map_of (addAll rs m) k =
     (if k \<in> fst ` set rs then Some (subsOf m k @ map snd (filter (\<lambda>r. fst r = k) rs))
      else map_of m k)"
proof (induction rs arbitrary: m)
  case Nil
  then show ?case by simp
next
  case (Cons r rs)
  show ?case
    by (cases "fst r = k")
       (auto simp: Cons.IH map_of_addSubscriber subsOf_def filter_empty_conv image_iff)
qed

lemma keys_addSubscriber: "fst ` set (addSubscriber k s m) = insert k (fst ` set m)"
  by (auto simp: addSubscriber_def Let_def dom_update update_conv' split: option.splits)

lemma keys_addAll: "fst ` set (addAll rs m) = fst ` set m \<union> fst ` set rs"
  by (induction rs arbitrary: m) (auto simp: keys_addSubscriber)

lemma set_insortBy [simp]: "set (insortBy x ys) = insert x (set ys)"
  by (induction ys) auto

lemma set_sortBy [simp]: "set (sortBy xs) = set xs"
  by (induction xs) (simp_all add: sortBy_def)

lemma distinct_insortBy [simp]: "distinct (insortBy x ys) = (x \<notin> set ys \<and> distinct ys)"
  by (induction ys) auto

lemma distinct_sortBy [simp]: "distinct (sortBy xs) = distinct xs"
proof (induction xs)
  case Nil
  then show ?case by (simp add: sortBy_def)
next
  case (Cons x xs)
  have "sortBy (x # xs) = insortBy x (sortBy xs)" by (simp add: sortBy_def)
  with Cons show ?case by simp
qed

lemma length_insortBy [simp]: "length (insortBy x ys) = Suc (length ys)"
  by (induction ys) auto

lemma length_sortBy [simp]: "length (sortBy xs) = length xs"
  by (induction xs) (simp_all add: sortBy_def)

lemma set_arraySort [simp]: "set (arraySort engineOrder xs) = set xs"
  by (simp add: arraySort_def)

lemma distinct_arraySort [simp]: "distinct (arraySort engineOrder xs) = distinct xs"
  by (simp add: arraySort_def)

lemma length_arraySort [simp]: "length (arraySort engineOrder xs) = length xs"
  by (simp add: arraySort_def)

lemma set_buildPriorityQueue:
  "set (buildPriorityQueue engineOrder now m) = mkQueueItem now ` set m"
  by (simp add: buildPriorityQueue_def)

lemma length_buildPriorityQueue [simp]:
  "length (buildPriorityQueue engineOrder now m) = length m"
  by (simp add: buildPriorityQueue_def)

lemma tickers_buildPriorityQueue:
  "set (map ticker (buildPriorityQueue engineOrder now m)) = fst ` set m"
  by (force simp: buildPriorityQueue_def mkQueueItem_def)

lemma distinct_tickers_buildPriorityQueue:
  assumes "distinct (map fst m)"
  shows "distinct (map ticker (buildPriorityQueue engineOrder now m))"
proof -
  have "map ticker (map (mkQueueItem now) m) = map fst m"
    by (simp add: mkQueueItem_def comp_def)
  with assms have "distinct (map ticker (map (mkQueueItem now) m))" by (simp only:)
  then have "distinct (map (mkQueueItem now) m) \<and> inj_on ticker (set (map (mkQueueItem now) m))"
    by (simp only: distinct_map)
  then have "distinct (buildPriorityQueue engineOrder now m) \<and>
      inj_on ticker (set (buildPriorityQueue engineOrder now m))"
    by (simp add: buildPriorityQueue_def)
  then show ?thesis by (simp only: distinct_map)
qed

text \<open>
  Claim C1. For every set of per-tenant requests, the queue built from the collected
  requests has exactly one item per distinct normalized subject key: its tickers are
  pairwise distinct and are exactly the keys requested. The subscriber list of an item
  is the list of all subscribers that requested its key, in the order of collection.
\<close>

theorem collect_build_dedup:
  "distinct (map ticker (buildPriorityQueue engineOrder now (collectStockRequests notion users))) \<and>
   set (map ticker (buildPriorityQueue engineOrder now (collectStockRequests notion users)))
     = fst ` set (allRequests notion users) \<and>
   (\<forall>item \<in> set (buildPriorityQueue engineOrder now (collectStockRequests notion users)).
      subscribers item
        = map snd (filter (\<lambda>r. fst r = ticker item) (allRequests notion users)))"
proof -
  let ?rs = "allRequests notion users"
  let ?m = "collectStockRequests notion users"
  let ?q = "buildPriorityQueue engineOrder now ?m"
  have m: "?m = addAll ?rs []" by (rule collect_addAll)
  have d: "distinct (map fst ?m)" by (simp add: m distinct_addAll)
  have k: "fst ` set ?m = fst ` set ?rs" by (simp add: m keys_addAll)
  have 1: "distinct (map ticker ?q)" using d by (rule distinct_tickers_buildPriorityQueue)
  have 2: "set (map ticker ?q) = fst ` set ?rs" using k by (simp only: tickers_buildPriorityQueue)
  have 3: "subscribers item = map snd (filter (\<lambda>r. fst r = ticker item) ?rs)"
    if "item \<in> set ?q" for item
  proof -
    from that obtain e where e: "e \<in> set ?m" "item = mkQueueItem now e"
      by (auto simp: set_buildPriorityQueue)
    then have "map_of ?m (fst e) = Some (snd e)" using d by simp
    moreover have "fst e \<in> fst ` set ?rs" using e k by blast
    ultimately have "snd e = map snd (filter (\<lambda>r. fst r = fst e) ?rs)"
      by (simp add: m map_of_addAll subsOf_def)
    then show ?thesis by (simp add: e mkQueueItem_def)
  qed
  from 1 2 3 show ?thesis by blast
qed

lemma ex_collect: "collectStockRequests exNotion [exUserA, exUserB] = 
   [(''MSFT'', [exSubA2\<lparr>pageId := ''pa1''\<rparr>]), (''AAPL'', [exSubA2, exSubB1])]"
  by code_simp

text \<open>
  Two tenants, three pages with a ticker: \<open>msft\<close> and \<open>aapl\<close> (with blanks) of the first,
  \<open>AAPL\<close> of the second. The item of \<open>AAPL\<close> has both tenants as subscribers.
\<close>

theorem collect_build_dedup_witness:
  "exItemAAPL \<in> set (buildPriorityQueue exEngineOrder 0
                        (collectStockRequests exNotion [exUserA, exUserB])) \<and>
   subscribers exItemAAPL = [exSubA2, exSubB1] \<and>
   subscribers exItemAAPL
     = map snd (filter (\<lambda>r. fst r = ticker exItemAAPL) (allRequests exNotion [exUserA, exUserB]))"
proof -
  have "exItemAAPL \<in> mkQueueItem 0 ` set (collectStockRequests exNotion [exUserA, exUserB])"
    by code_simp
  then have mem: "exItemAAPL \<in> set (buildPriorityQueue exEngineOrder 0
                        (collectStockRequests exNotion [exUserA, exUserB]))"
    by (simp only: set_buildPriorityQueue)
  have subs: "subscribers exItemAAPL = [exSubA2, exSubB1]"
    by (simp add: exItemAAPL_def)
  from collect_build_dedup [of exEngineOrder 0 exNotion "[exUserA, exUserB]"] mem subs show ?thesis
    by blast
qed

subsection \<open>Priority order\<close>

lemma tierNumber_ordinary:
  "t \<notin> set objectPrototypeNames \<Longrightarrow> tierNumber t = Number (enat (specTierIndex t))"
  by (auto simp: tierNumber_def tierLookup_def specTierIndex_def TIER_PRIORITY_def numeral_eq_enat
      split: option.splits if_splits)

lemma tierNumber_inherited:
  "t \<in> set objectPrototypeNames \<Longrightarrow> tierNumber t = NaN"
  by (auto simp: tierNumber_def tierLookup_def objectPrototypeNames_def TIER_PRIORITY_def)

lemma highestPriority_ordinary:
  "\<forall>s \<in> set subs. tier s \<notin> set objectPrototypeNames \<Longrightarrow>
   highestPriority subs = Number (leastTierIndex subs)"
  by (induction subs)
     (simp_all add: highestPriority_def mathMin_def leastTierIndex_def minJS_def toNumber_def
        tierNumber_ordinary)

lemma leastTierIndex_Cons:
  "leastTierIndex (s # subs) = min (enat (specTierIndex (tier s))) (leastTierIndex subs)"
  by (simp add: leastTierIndex_def)

lemma leastTierIndex_Min:
  "subs \<noteq> [] \<Longrightarrow> leastTierIndex subs = enat (Min ((\<lambda>s. specTierIndex (tier s)) ` set subs))"
proof (induction subs)
  case Nil
  then show ?case by simp
next
  case (Cons s subs)
  show ?case
  proof (cases "subs = []")
    case True
    then show ?thesis by (simp add: leastTierIndex_def)
  next
    case False
    with Cons.IH have ih: "leastTierIndex subs = enat (Min ((\<lambda>s. specTierIndex (tier s)) ` set subs))"
      by simp
    have "leastTierIndex (s # subs) = min (enat (specTierIndex (tier s))) (leastTierIndex subs)"
      by (rule leastTierIndex_Cons)
    also have "\<dots> = enat (min (specTierIndex (tier s)) (Min ((\<lambda>s. specTierIndex (tier s)) ` set subs)))"
      by (simp add: ih min_def)
    also have "\<dots> = enat (Min ((\<lambda>s. specTierIndex (tier s)) ` set (s # subs)))"
      using False by simp
    finally show ?thesis .
  qed
qed

lemma priority_buildPriorityQueue:
  "item \<in> set (buildPriorityQueue engineOrder now m) \<Longrightarrow>
   priority item = highestPriority (subscribers item)"
  by (auto simp: set_buildPriorityQueue mkQueueItem_def)

lemma ordinary_subscribers:
  assumes "ordinaryTiers m" and "item \<in> set (buildPriorityQueue engineOrder now m)"
  shows "\<forall>s \<in> set (subscribers item). tier s \<notin> set objectPrototypeNames"
  using assms
  by (auto simp: ordinaryTiers_def list_all_iff set_buildPriorityQueue mkQueueItem_def)

lemma priority_ordinary:
  assumes "ordinaryTiers m" and "item \<in> set (buildPriorityQueue engineOrder now m)"
  shows "priority item = Number (leastTierIndex (subscribers item))"
    and "priorityNumber item = leastTierIndex (subscribers item)"
proof -
  show p: "priority item = Number (leastTierIndex (subscribers item))"
    using priority_buildPriorityQueue [OF assms(2)]
      highestPriority_ordinary [OF ordinary_subscribers [OF assms]]
    by simp
  show "priorityNumber item = leastTierIndex (subscribers item)"
    by (simp add: priorityNumber_def p toNumber_def)
qed

lemma numeric_ordinary:
  assumes "ordinaryTiers m"
  shows "numericPriorities (map (mkQueueItem now) m)"
proof -
  have "toNumber (priority (mkQueueItem now e)) \<noteq> None" if "e \<in> set m" for e
  proof -
    from that assms have "\<forall>s \<in> set (snd e). tier s \<notin> set objectPrototypeNames"
      by (auto simp: ordinaryTiers_def list_all_iff)
    then show ?thesis
      by (simp add: mkQueueItem_def highestPriority_ordinary toNumber_def)
  qed
  then show ?thesis by (simp add: numericPriorities_def list_all_iff)
qed

lemma compareFn_numeric:
  assumes "toNumber (priority a) \<noteq> None" and "toNumber (priority b) \<noteq> None"
  shows "(compareFn a b \<le> 0) = (priorityNumber a \<le> priorityNumber b)"
    and "(compareFn a b < 0) = (priorityNumber a < priorityNumber b)"
    and "(compareFn a b = 0) = (priorityNumber a = priorityNumber b)"
    and "(compareFn a b > 0) = (priorityNumber a > priorityNumber b)"
  using assms by (auto simp: compareFn_def priorityNumber_def split: if_splits)

lemma consistent_numeric:
  assumes "numericPriorities xs"
  shows "consistentComparator xs"
proof -
  have n: "toNumber (priority a) \<noteq> None" if "a \<in> set xs" for a
    using assms that by (simp add: numericPriorities_def list_all_iff)
  show ?thesis
    unfolding consistentComparator_def
    by (intro ballI conjI impI) (auto simp: compareFn_numeric n)
qed

lemma insortBy_numeric:
  assumes "toNumber (priority x) \<noteq> None" and "numericPriorities ys"
  shows "insortBy x ys = insort_key priorityNumber x ys"
  using assms
  by (induction ys) (simp_all add: numericPriorities_def compareFn_numeric)

lemma sortBy_numeric:
  "numericPriorities xs \<Longrightarrow> sortBy xs = sort_key priorityNumber xs"
proof (induction xs)
  case Nil
  then show ?case by (simp add: sortBy_def)
next
  case (Cons x xs)
  then have x: "toNumber (priority x) \<noteq> None" and xs: "numericPriorities xs"
    by (simp_all add: numericPriorities_def)
  have "numericPriorities (sort_key priorityNumber xs)"
    using xs by (simp add: numericPriorities_def list_all_iff)
  then have "insortBy x (sort_key priorityNumber xs)
      = insort_key priorityNumber x (sort_key priorityNumber xs)"
    using x by (intro insortBy_numeric)
  moreover have "sortBy (x # xs) = insortBy x (sortBy xs)" by (simp add: sortBy_def)
  ultimately show ?case using Cons.IH [OF xs] by (simp add: sort_key_def)
qed

lemma buildPriorityQueue_ordinary:
  assumes "ordinaryTiers m"
  shows "buildPriorityQueue engineOrder now m = sort_key priorityNumber (map (mkQueueItem now) m)"
  using numeric_ordinary [OF assms, of now]
  by (simp add: buildPriorityQueue_def arraySort_def consistent_numeric sortBy_numeric)

lemma sorted_buildPriorityQueue:
  "ordinaryTiers m \<Longrightarrow> sorted (map priorityNumber (buildPriorityQueue engineOrder now m))"
  by (simp add: buildPriorityQueue_ordinary)

lemma stable_buildPriorityQueue:
  "ordinaryTiers m \<Longrightarrow>
   filter (\<lambda>i. priorityNumber i = p) (buildPriorityQueue engineOrder now m)
     = filter (\<lambda>i. priorityNumber i = p) (map (mkQueueItem now) m)"
  by (simp only: buildPriorityQueue_ordinary sort_key_stable)

text \<open>
  Claim C5, as amended. For every ticker map whose tiers are not names the tier table
  inherits, \<open>buildPriorityQueue\<close> gives each item the least tier index among its subscribers
  as priority and returns the items in ascending order of priority; items of equal
  priority keep the order they have in the ticker map (the sort is stable and has no second
  key), so the result is a function of the map and its insertion order.
\<close>

theorem buildPriorityQueue_sorted_stable:
  assumes "ordinaryTiers m"
  shows "sorted (map priorityNumber (buildPriorityQueue engineOrder now m)) \<and>
   (\<forall>item \<in> set (buildPriorityQueue engineOrder now m).
      priority item = highestPriority (subscribers item) \<and>
      priority item = Number (leastTierIndex (subscribers item)) \<and>
      (subscribers item \<noteq> [] \<longrightarrow>
         priority item
           = Number (enat (Min ((\<lambda>s. specTierIndex (tier s)) ` set (subscribers item)))))) \<and>
   (\<forall>p. filter (\<lambda>i. priorityNumber i = p) (buildPriorityQueue engineOrder now m)
          = filter (\<lambda>i. priorityNumber i = p) (map (mkQueueItem now) m)) \<and>
   buildPriorityQueue engineOrder now m = sort_key priorityNumber (map (mkQueueItem now) m)"
proof -
  have 1: "sorted (map priorityNumber (buildPriorityQueue engineOrder now m))"
    using assms by (rule sorted_buildPriorityQueue)
  have 2: "priority item = highestPriority (subscribers item) \<and>
      priority item = Number (leastTierIndex (subscribers item)) \<and>
      (subscribers item \<noteq> [] \<longrightarrow>
         priority item
           = Number (enat (Min ((\<lambda>s. specTierIndex (tier s)) ` set (subscribers item)))))"
    if "item \<in> set (buildPriorityQueue engineOrder now m)" for item
  proof (intro conjI impI)
    show "priority item = highestPriority (subscribers item)"
      using that by (rule priority_buildPriorityQueue)
    show p: "priority item = Number (leastTierIndex (subscribers item))"
      by (rule priority_ordinary(1) [OF assms that])
    show "priority item
           = Number (enat (Min ((\<lambda>s. specTierIndex (tier s)) ` set (subscribers item))))"
      if "subscribers item \<noteq> []"
      using that by (simp add: p leastTierIndex_Min)
  qed
  have 3: "filter (\<lambda>i. priorityNumber i = p) (buildPriorityQueue engineOrder now m)
          = filter (\<lambda>i. priorityNumber i = p) (map (mkQueueItem now) m)" for p
    using assms by (rule stable_buildPriorityQueue)
  have 4: "buildPriorityQueue engineOrder now m = sort_key priorityNumber (map (mkQueueItem now) m)"
    using assms by (rule buildPriorityQueue_ordinary)
  from 1 2 3 4 show ?thesis by blast
qed

lemma ex_MSFT_AAPL:
  "buildPriorityQueue exEngineOrder 0 [(''MSFT'', [exFree ''p1'']), (''AAPL'', [exFree ''p2''])]
     = [mkQueueItem 0 (''MSFT'', [exFree ''p1'']), mkQueueItem 0 (''AAPL'', [exFree ''p2''])]"
  "buildPriorityQueue exEngineOrder 0 [(''AAPL'', [exFree ''p2'']), (''MSFT'', [exFree ''p1''])]
     = [mkQueueItem 0 (''AAPL'', [exFree ''p2'']), mkQueueItem 0 (''MSFT'', [exFree ''p1''])]"
  "priority (mkQueueItem 0 (''MSFT'', [exFree ''p1''])) = Number 4"
  "priority (mkQueueItem 0 (''AAPL'', [exFree ''p2''])) = Number 4"
  by code_simp+

text \<open>
  Claim C5 as stated fails: ties are not broken by subject key. Two ticker maps with the
  same two entries of equal priority, inserted in opposite orders, give queues in opposite
  orders.
\<close>

theorem tie_order_counterexample:
  "map ticker (buildPriorityQueue exEngineOrder 0
                 [(''MSFT'', [exFree ''p1'']), (''AAPL'', [exFree ''p2''])])
     = [''MSFT'', ''AAPL''] \<and>
   map ticker (buildPriorityQueue exEngineOrder 0
                 [(''AAPL'', [exFree ''p2'']), (''MSFT'', [exFree ''p1''])])
     = [''AAPL'', ''MSFT''] \<and>
   map priority (buildPriorityQueue exEngineOrder 0
                   [(''MSFT'', [exFree ''p1'']), (''AAPL'', [exFree ''p2''])])
     = [Number 4, Number 4]"
  by (simp add: ex_MSFT_AAPL) (simp add: mkQueueItem_def)

lemma ex_ordinary: "ordinaryTiers exTickerMap"
  by code_simp

lemma ex_sorted:
  "buildPriorityQueue exEngineOrder 0 exTickerMap =
     [mkQueueItem 0 (''GOOG'', [exFree ''p2'', exPro ''p3'']),
      mkQueueItem 0 (''MSFT'', [exFree ''p1'']),
      mkQueueItem 0 (''AAPL'', [exFree ''p5'']),
      mkQueueItem 0 (''ZZZ'', [(exFree ''p4'')\<lparr>tier := ''Enterprise''\<rparr>])]"
proof -
  have "sort_key priorityNumber (map (mkQueueItem 0) exTickerMap) =
     [mkQueueItem 0 (''GOOG'', [exFree ''p2'', exPro ''p3'']),
      mkQueueItem 0 (''MSFT'', [exFree ''p1'']),
      mkQueueItem 0 (''AAPL'', [exFree ''p5'']),
      mkQueueItem 0 (''ZZZ'', [(exFree ''p4'')\<lparr>tier := ''Enterprise''\<rparr>])]"
    by code_simp
  then show ?thesis by (simp only: buildPriorityQueue_ordinary [OF ex_ordinary])
qed

text \<open>
  Four entries: \<open>GOOG\<close> has a Pro subscriber and comes first; \<open>MSFT\<close> and \<open>AAPL\<close> are both
  Free and keep their insertion order; \<open>ZZZ\<close>, of the unknown tier \<open>Enterprise\<close>, has
  priority 99 and comes last.
\<close>

theorem buildPriorityQueue_sorted_stable_witness:
  "ordinaryTiers exTickerMap \<and>
   map ticker (buildPriorityQueue exEngineOrder 0 exTickerMap)
     = [''GOOG'', ''MSFT'', ''AAPL'', ''ZZZ''] \<and>
   sorted (map priorityNumber (buildPriorityQueue exEngineOrder 0 exTickerMap)) \<and>
   mkQueueItem 0 (''GOOG'', [exFree ''p2'', exPro ''p3''])
     \<in> set (buildPriorityQueue exEngineOrder 0 exTickerMap) \<and>
   priority (mkQueueItem 0 (''GOOG'', [exFree ''p2'', exPro ''p3'']))
     = Number (enat (Min ((\<lambda>s. specTierIndex (tier s)) ` set [exFree ''p2'', exPro ''p3'']))) \<and>
   map ticker (filter (\<lambda>i. priorityNumber i = 4) (buildPriorityQueue exEngineOrder 0 exTickerMap))
     = [''MSFT'', ''AAPL'']"
proof -
  let ?g = "mkQueueItem 0 (''GOOG'', [exFree ''p2'', exPro ''p3''])"
  have order: "map ticker (buildPriorityQueue exEngineOrder 0 exTickerMap)
      = [''GOOG'', ''MSFT'', ''AAPL'', ''ZZZ'']"
    by (simp add: ex_sorted mkQueueItem_def)
  have mem: "?g \<in> set (buildPriorityQueue exEngineOrder 0 exTickerMap)"
    by (simp add: ex_sorted)
  have ne: "subscribers ?g \<noteq> []" "subscribers ?g = [exFree ''p2'', exPro ''p3'']"
    by (simp_all add: mkQueueItem_def)
  have ties: "map ticker (filter (\<lambda>i. priorityNumber i = 4) (map (mkQueueItem 0) exTickerMap))
     = [''MSFT'', ''AAPL'']"
    by code_simp
  from buildPriorityQueue_sorted_stable [OF ex_ordinary, of exEngineOrder 0] order mem ne ties
  show ?thesis
    using ex_ordinary by metis
qed

lemma specTierIndex_recognized: "recognizedTier t \<Longrightarrow> specTierIndex t \<le> 4"
  by (auto simp: recognizedTier_def specTierIndex_def TIER_PRIORITY_def)

lemma specTierIndex_unrecognized: "\<not> recognizedTier t \<Longrightarrow> specTierIndex t = 99"
  by (auto simp: recognizedTier_def specTierIndex_def TIER_PRIORITY_def)

lemma leastTierIndex_le: "s \<in> set subs \<Longrightarrow> leastTierIndex subs \<le> enat (specTierIndex (tier s))"
  by (induction subs) (auto simp: leastTierIndex_Cons min_le_iff_disj)

lemma leastTierIndex_ge:
  "\<forall>s \<in> set subs. n \<le> specTierIndex (tier s) \<Longrightarrow> enat n \<le> leastTierIndex subs"
  by (induction subs) (auto simp: leastTierIndex_Cons leastTierIndex_def)

text \<open>
  What holds of the fallback: a tier that is neither one of the four nor a name the table
  inherits has the number 99, and in a queue built from a map without inherited names an
  item all of whose subscribers have an unrecognized tier stands after every item that
  has a subscriber of a recognized tier.
\<close>

lemma ordinary_unrecognized_tier_sorts_last:
  assumes "ordinaryTiers m"
  shows "(\<not> recognizedTier t \<and> t \<notin> set objectPrototypeNames \<longrightarrow> tierNumber t = Number 99) \<and>
   (\<forall>i j. i < length (buildPriorityQueue engineOrder now m) \<and>
      j < length (buildPriorityQueue engineOrder now m) \<and>
      (\<forall>s \<in> set (subscribers (buildPriorityQueue engineOrder now m ! i)). \<not> recognizedTier (tier s)) \<and>
      (\<exists>s \<in> set (subscribers (buildPriorityQueue engineOrder now m ! j)). recognizedTier (tier s))
      \<longrightarrow> j < i)"
proof -
  let ?q = "buildPriorityQueue engineOrder now m"
  have "j < i"
    if i: "i < length ?q" and j: "j < length ?q"
      and un: "\<forall>s \<in> set (subscribers (?q ! i)). \<not> recognizedTier (tier s)"
      and re: "\<exists>s \<in> set (subscribers (?q ! j)). recognizedTier (tier s)" for i j
  proof (rule ccontr)
    assume "\<not> j < i"
    then have "i \<le> j" by simp
    with j sorted_buildPriorityQueue [OF assms, of engineOrder now]
    have le: "priorityNumber (?q ! i) \<le> priorityNumber (?q ! j)"
      using i by (simp add: sorted_iff_nth_mono del: length_buildPriorityQueue)
    have mi: "?q ! i \<in> set ?q" using i by (rule nth_mem)
    have mj: "?q ! j \<in> set ?q" using j by (rule nth_mem)
    have pi: "priorityNumber (?q ! i) = leastTierIndex (subscribers (?q ! i))"
      by (rule priority_ordinary(2) [OF assms mi])
    have pj: "priorityNumber (?q ! j) = leastTierIndex (subscribers (?q ! j))"
      by (rule priority_ordinary(2) [OF assms mj])
    from un have "\<forall>s \<in> set (subscribers (?q ! i)). 99 \<le> specTierIndex (tier s)"
      by (simp add: specTierIndex_unrecognized)
    then have ge: "enat 99 \<le> priorityNumber (?q ! i)"
      unfolding pi by (rule leastTierIndex_ge)
    from re obtain s where s: "s \<in> set (subscribers (?q ! j))" "recognizedTier (tier s)" by blast
    then have "priorityNumber (?q ! j) \<le> enat (specTierIndex (tier s))"
      unfolding pj by (simp add: leastTierIndex_le)
    also have "\<dots> \<le> enat 4" using s(2) by (simp add: specTierIndex_recognized)
    finally have "priorityNumber (?q ! j) \<le> enat 4" .
    with ge le have "enat 99 \<le> enat 4" by (meson order_trans)
    then show False by simp
  qed
  then show ?thesis
    by (auto simp: tierNumber_ordinary specTierIndex_unrecognized numeral_eq_enat)
qed

lemma ex_inherited:
  "map (mkQueueItem 0)
     [(''ZZZ'', [(exFree ''p4'')\<lparr>tier := ''constructor''\<rparr>]), (''AAA'', [exFree ''p5''])]
     = [\<lparr> ticker = ''ZZZ'', priority = NaN,
           subscribers = [(exFree ''p4'')\<lparr>tier := ''constructor''\<rparr>],
           requestedAt = DateObject 0 \<rparr>,
        \<lparr> ticker = ''AAA'', priority = Number 4, subscribers = [exFree ''p5''],
           requestedAt = DateObject 0 \<rparr>]"
  by code_simp

text \<open>
  With an item of priority \<open>NaN\<close> and one other item the comparator is 0 everywhere: it is
  consistent, and the order is the order of insertion whatever the engine.
\<close>

lemma inherited_tier_any_engine:
  "buildPriorityQueue engineOrder 0
       [(''ZZZ'', [(exFree ''p4'')\<lparr>tier := ''constructor''\<rparr>]), (''AAA'', [exFree ''p5''])]
     = [\<lparr> ticker = ''ZZZ'', priority = NaN,
           subscribers = [(exFree ''p4'')\<lparr>tier := ''constructor''\<rparr>],
           requestedAt = DateObject 0 \<rparr>,
        \<lparr> ticker = ''AAA'', priority = Number 4, subscribers = [exFree ''p5''],
           requestedAt = DateObject 0 \<rparr>]"
proof -
  let ?z = "\<lparr> ticker = ''ZZZ'', priority = NaN,
           subscribers = [(exFree ''p4'')\<lparr>tier := ''constructor''\<rparr>],
           requestedAt = DateObject 0 \<rparr>"
  let ?a = "\<lparr> ticker = ''AAA'', priority = Number 4, subscribers = [exFree ''p5''],
           requestedAt = DateObject 0 \<rparr>"
  have c: "compareFn ?z ?a = 0" "compareFn ?a ?z = 0" "compareFn ?a ?a = 0" "compareFn ?z ?z = 0"
    by (simp_all add: compareFn_def toNumber_def)
  have cons: "consistentComparator [?z, ?a]"
    by (simp add: consistentComparator_def c)
  have srt: "sortBy [?z, ?a] = [?z, ?a]"
    by (simp add: sortBy_def c)
  show ?thesis
    by (simp only: buildPriorityQueue_def ex_inherited arraySort_def cons srt if_True)
qed

text \<open>
  Claim C10 fails on the code. The tier \<open>constructor\<close> is none of the four tiers, but the
  table inherits a property of that name: the lookup is truthy, the fallback 99 is not
  taken and the priority of the item is \<open>NaN\<close>. The comparator is then 0 between the two
  items, and the item stays in front of an item with a Free subscriber. A tier such as
  \<open>Enterprise\<close> does get 99.
\<close>

theorem inherited_tier_name_misses_fallback:
  "\<not> recognizedTier ''constructor'' \<and> recognizedTier ''Free'' \<and>
   tierNumber ''constructor'' = NaN \<and>
   tierNumber ''Enterprise'' = Number 99 \<and>
   map (\<lambda>item. map tier (subscribers item)) (buildPriorityQueue exEngineOrder 0
       [(''ZZZ'', [(exFree ''p4'')\<lparr>tier := ''constructor''\<rparr>]), (''AAA'', [exFree ''p5''])])
     = [[''constructor''], [''Free'']] \<and>
   map priority (buildPriorityQueue exEngineOrder 0
       [(''ZZZ'', [(exFree ''p4'')\<lparr>tier := ''constructor''\<rparr>]), (''AAA'', [exFree ''p5''])])
     = [NaN, Number 4] \<and>
   map ticker (buildPriorityQueue exEngineOrder 0
       [(''ZZZ'', [(exFree ''p4'')\<lparr>tier := ''constructor''\<rparr>]), (''AAA'', [exFree ''p5''])])
     = [''ZZZ'', ''AAA'']"
proof -
  have t: "\<not> recognizedTier ''constructor''" "recognizedTier ''Free''"
    "tierNumber ''constructor'' = NaN" "tierNumber ''Enterprise'' = Number 99"
    by (simp_all add: recognizedTier_def tierNumber_def tierLookup_def TIER_PRIORITY_def
        objectPrototypeNames_def)
  show ?thesis
    by (simp add: inherited_tier_any_engine t) (simp add: exFree_def)
qed

subsection \<open>The retries of the analysis\<close>

declare analyzeLoop.simps [simp del]

lemma callAnalysis_nonempty:
  "subscribers item \<noteq> [] \<Longrightarrow>
   callAnalysis env item mc k w
     = (analyzeStockCore env item mc k, logEvent (AnalyzeCall (ticker item) k) w)"
  by (cases "subscribers item") (simp_all add: callAnalysis_def)

lemma analyzeLoop_final:
  assumes "subscribers item \<noteq> []"
  shows "analyzeLoop env item 3 mc (Suc (Suc 0)) w
     = (Inr (outcomeResult item (analyzeStockCore env item mc 2)),
        logEvent (AnalyzeCall (ticker item) 2) w)"
  by (subst analyzeLoop.simps)
     (simp add: callAnalysis_nonempty [OF assms] outcomeResult_def numeral_2_eq_2 [symmetric]
        split: AnalysisOutcome.splits)

lemma analyzeLoop_retry:
  assumes "subscribers item \<noteq> []" and "k < 2"
  shows "analyzeLoop env item 3 mc k w
     = (if transientOverload (analyzeStockCore env item mc k)
        then analyzeLoop env item 3 mc (Suc k)
               (delay (retryDelayMs (outcomeError (analyzeStockCore env item mc k)) k)
                  (logEvent (AnalyzeCall (ticker item) k) w))
        else (Inr (outcomeResult item (analyzeStockCore env item mc k)),
              logEvent (AnalyzeCall (ticker item) k) w))"
  using assms(2)
  by (subst analyzeLoop.simps)
     (auto simp: callAnalysis_nonempty [OF assms(1)] outcomeResult_def transientOverload_def
        outcomeError_def split: AnalysisOutcome.splits)

lemma analyzeWithRetry_unfold:
  assumes "subscribers item \<noteq> []"
  shows "analyzeWithRetry env item 3 mc w =
     (let t = ticker item; out = analyzeStockCore env item mc;
          d = (\<lambda>k. Delay (retryDelayMs (outcomeError (out k)) k))
      in if \<not> transientOverload (out 0)
         then (Inr (outcomeResult item (out 0)), w\<lparr>events := events w @ [AnalyzeCall t 0]\<rparr>)
         else if \<not> transientOverload (out 1)
         then (Inr (outcomeResult item (out 1)),
               w\<lparr>events := events w @ [AnalyzeCall t 0, d 0, AnalyzeCall t 1]\<rparr>)
         else (Inr (outcomeResult item (out 2)),
               w\<lparr>events := events w
                   @ [AnalyzeCall t 0, d 0, AnalyzeCall t 1, d 1, AnalyzeCall t 2]\<rparr>))"
proof -
  show ?thesis
    unfolding analyzeWithRetry_def
    by (simp add: analyzeLoop_retry [OF assms] analyzeLoop_final [OF assms]
        logEvent_def delay_def Let_def)
qed

lemma parseFloat_parts:
  "takeWhile isDigit s = ip \<Longrightarrow> dropWhile isDigit s = CHR ''.'' # r \<Longrightarrow>
   takeWhile isDigit r = fp \<Longrightarrow> ip \<noteq> [] \<Longrightarrow>
   parseFloat s = Some (of_nat (digitsValue ip) + of_nat (digitsValue fp) / 10 ^ length fp)"
  by (simp add: parseFloat_def Let_def)

lemma retryDelayMs_suggested:
  assumes "suggestedSeconds err = Some s" and "0 < s"
  shows "retryDelayMs err k = min (ceiling s) 60 * 1000"
proof -
  from assms(1) obtain e run where e: "err = Some e" "matchRetry e = Some run" "parseFloat run = Some s"
    by (auto simp: suggestedSeconds_def split: option.splits)
  have ne: "e \<noteq> []" using e(2) by auto
  have "0 < ceiling s" using assms(2) by (simp add: ceiling_less_iff less_ceiling_iff)
  then have "min (ceiling s) 60 \<noteq> 0" by arith
  then show ?thesis
    by (simp add: retryDelayMs_def extractRetryAfter_def e ne Let_def)
qed

lemma retryDelayMs_schedule:
  assumes "suggestedSeconds err = None"
  shows "retryDelayMs err k = (if k < 3 then [2000, 4000, 8000] ! k else 0)"
  using assms
  by (auto simp: retryDelayMs_def extractRetryAfter_def suggestedSeconds_def backoffDelays_def
      Let_def split: option.splits)

text \<open>
  What the retries do. For every queue item (with a subscriber), the analysis step makes
  at most three attempts and returns a result; an attempt is followed by another one only
  when it ended in a recognized transient-overload error, any other outcome ending the
  step at once. The delay before a retry is the number of seconds the error text suggests,
  rounded up to a whole second and capped at 60, when the text carries a positive number;
  when it carries none, the delay is taken from the schedule 2 s, 4 s, 8 s by the number
  of the attempt.
\<close>

lemma analyzeWithRetry_policy:
  assumes "subscribers item \<noteq> []"
  shows "(\<exists>r. fst (analyzeWithRetry env item 3 mc w) = Inr r) \<and>
     events (snd (analyzeWithRetry env item 3 mc w)) = events w @
       (if \<not> transientOverload (analyzeStockCore env item mc 0)
        then [AnalyzeCall (ticker item) 0]
        else if \<not> transientOverload (analyzeStockCore env item mc 1)
        then [AnalyzeCall (ticker item) 0,
              Delay (retryDelayMs (outcomeError (analyzeStockCore env item mc 0)) 0),
              AnalyzeCall (ticker item) 1]
        else [AnalyzeCall (ticker item) 0,
              Delay (retryDelayMs (outcomeError (analyzeStockCore env item mc 0)) 0),
              AnalyzeCall (ticker item) 1,
              Delay (retryDelayMs (outcomeError (analyzeStockCore env item mc 1)) 1),
              AnalyzeCall (ticker item) 2]) \<and>
     (\<forall>err s k. suggestedSeconds err = Some s \<and> 0 < s
        \<longrightarrow> retryDelayMs err k = min (ceiling s) 60 * 1000) \<and>
     (\<forall>err k. suggestedSeconds err = None \<and> k < 3
        \<longrightarrow> retryDelayMs err k = [2000, 4000, 8000] ! k)"
proof -
  have a: "\<exists>r. fst (analyzeWithRetry env item 3 mc w) = Inr r"
    by (simp add: analyzeWithRetry_unfold [OF assms] Let_def)
  have b: "events (snd (analyzeWithRetry env item 3 mc w)) = events w @
       (if \<not> transientOverload (analyzeStockCore env item mc 0)
        then [AnalyzeCall (ticker item) 0]
        else if \<not> transientOverload (analyzeStockCore env item mc 1)
        then [AnalyzeCall (ticker item) 0,
              Delay (retryDelayMs (outcomeError (analyzeStockCore env item mc 0)) 0),
              AnalyzeCall (ticker item) 1]
        else [AnalyzeCall (ticker item) 0,
              Delay (retryDelayMs (outcomeError (analyzeStockCore env item mc 0)) 0),
              AnalyzeCall (ticker item) 1,
              Delay (retryDelayMs (outcomeError (analyzeStockCore env item mc 1)) 1),
              AnalyzeCall (ticker item) 2])"
    by (simp add: analyzeWithRetry_unfold [OF assms] Let_def)
  have c: "\<forall>err s k. suggestedSeconds err = Some s \<and> 0 < s
        \<longrightarrow> retryDelayMs err k = min (ceiling s) 60 * 1000"
    by (simp add: retryDelayMs_suggested)
  have d: "\<forall>err k. suggestedSeconds err = None \<and> k < 3
        \<longrightarrow> retryDelayMs err k = [2000, 4000, 8000] ! k"
    by (simp add: retryDelayMs_schedule)
  from a b c d show ?thesis by blast
qed

text \<open>
  Claim C6 fails on the code. The error text of the documentation of \<open>extractRetryAfter\<close>,
  \<open>Please retry in 48.50719905s\<close>, suggests a delay below the cap; the documentation gives
  48.5 for it and the claim the suggested delay. The function returns 49 and the engine
  waits 49 seconds.
\<close>

theorem suggested_delay_is_rounded_up:
  "isGeminiRateLimitError (Some ''429 quota exceeded. Please retry in 48.50719905s'') \<and>
   suggestedSeconds (Some ''429 quota exceeded. Please retry in 48.50719905s'')
     = Some (4850719905 / 100000000) \<and>
   extractRetryAfter (Some ''429 quota exceeded. Please retry in 48.50719905s'') = Seconds 49 \<and>
   retryDelayMs (Some ''429 quota exceeded. Please retry in 48.50719905s'') 0 = 49000 \<and>
   specDelayMs (Some ''429 quota exceeded. Please retry in 48.50719905s'') 0
     = 4850719905 / 100000"
proof -
  let ?e = "''429 quota exceeded. Please retry in 48.50719905s''"
  have rl: "isGeminiRateLimitError (Some ?e)"
    by code_simp
  have run: "matchRetry ?e = Some ''48.50719905''"
    by code_simp
  have parts: "takeWhile isDigit ''48.50719905'' = ''48''"
    "dropWhile isDigit ''48.50719905'' = CHR ''.'' # ''50719905''"
    "takeWhile isDigit ''50719905'' = ''50719905''"
    by code_simp+
  have digits: "digitsValue ''48'' = 48" "digitsValue ''50719905'' = 50719905"
    by (simp_all add: digitsValue_def)
  have pf: "parseFloat ''48.50719905'' = Some (4850719905 / 100000000)"
    using parseFloat_parts [OF parts] by (simp add: digits)
  have sg: "suggestedSeconds (Some ?e) = Some (4850719905 / 100000000)"
    by (simp add: suggestedSeconds_def run pf del: matchRetry.simps)
  have up: "ceiling (4850719905 / 100000000 :: rat) = 49"
    by (rule ceiling_unique) simp_all
  have ex: "extractRetryAfter (Some ?e) = Seconds 49"
    using up by (simp add: extractRetryAfter_def run pf del: matchRetry.simps)
  have rd: "retryDelayMs (Some ?e) 0 = 49000"
    by (simp add: retryDelayMs_def ex Let_def)
  have sd: "specDelayMs (Some ?e) 0 = 4850719905 / 100000"
    by (simp add: specDelayMs_def sg)
  from rl sg ex rd sd show ?thesis by (intro conjI)
qed

text \<open>
  \<open>AAPL\<close> in the example: a 429 with a suggested delay, a 503 without one, then success.
\<close>

lemma analyzeWithRetry_policy_example:
  "subscribers (exItem ''AAPL'' [exSub ''ua'' ''Pro'' ''p1'']) \<noteq> [] \<and>
   transientOverload (exAnalyze (exItem ''AAPL'' [exSub ''ua'' ''Pro'' ''p1'']) None 0) \<and>
   transientOverload (exAnalyze (exItem ''AAPL'' [exSub ''ua'' ''Pro'' ''p1'']) None 1) \<and>
   events (snd (analyzeWithRetry exEnv (exItem ''AAPL'' [exSub ''ua'' ''Pro'' ''p1'']) 3 None
                  emptyWorld))
     = [AnalyzeCall ''AAPL'' 0, Delay 49000, AnalyzeCall ''AAPL'' 1, Delay 4000,
        AnalyzeCall ''AAPL'' 2] \<and>
   suggestedSeconds (Some ''429 quota exceeded. Please retry in 48.5s'') = Some (97 / 2) \<and>
   retryDelayMs (Some ''429 quota exceeded. Please retry in 48.5s'') 0 = min (ceiling (97 / 2 :: rat)) 60 * 1000 \<and>
   suggestedSeconds (Some ''503 model is overloaded'') = None \<and>
   retryDelayMs (Some ''503 model is overloaded'') 1 = [2000, 4000, 8000] ! 1"
proof -
  let ?item = "exItem ''AAPL'' [exSub ''ua'' ''Pro'' ''p1'']"
  have ne: "subscribers ?item \<noteq> []" by (simp add: exItem_def mkQueueItem_def)
  have t0: "transientOverload (exAnalyze ?item None 0)" by code_simp
  have t1: "transientOverload (exAnalyze ?item None 1)" by code_simp
  have ev: "events (snd (analyzeWithRetry exEnv ?item 3 None emptyWorld))
     = [AnalyzeCall ''AAPL'' 0, Delay 49000, AnalyzeCall ''AAPL'' 1, Delay 4000,
        AnalyzeCall ''AAPL'' 2]" by code_simp
  have s0: "suggestedSeconds (Some ''429 quota exceeded. Please retry in 48.5s'') = Some (97 / 2)"
    by code_simp
  have s1: "suggestedSeconds (Some ''503 model is overloaded'') = None"
    by code_simp
  have pos: "(0::rat) < 97 / 2" by simp
  from analyzeWithRetry_policy [OF ne, of exEnv None emptyWorld] s0 s1 pos
  have d0: "retryDelayMs (Some ''429 quota exceeded. Please retry in 48.5s'') 0
              = min (ceiling (97 / 2 :: rat)) 60 * 1000"
    and d1: "retryDelayMs (Some ''503 model is overloaded'') 1 = [2000, 4000, 8000] ! 1"
    by (blast, simp)
  from ne t0 t1 ev s0 s1 d0 d1 show ?thesis by blast
qed

subsection \<open>Terminal failure of a subject\<close>

lemma isArchiveCall_simps [simp]:
  "isArchiveCall (ArchiveCall page)"
  "\<not> isArchiveCall (StatusWrite page st ok)"
  "\<not> isArchiveCall (AnalyzeCall t k)"
  "\<not> isArchiveCall (SyncCall page k)"
  "\<not> isArchiveCall (Delay ms)"
  by (simp_all add: isArchiveCall_def)

lemma logEvent_fields [simp]:
  "pageStatus (logEvent e w) = pageStatus w"
  "historyEntries (logEvent e w) = historyEntries w"
  "events (logEvent e w) = events w @ [e]"
  by (simp_all add: logEvent_def)

lemma delay_fields [simp]:
  "pageStatus (delay ms w) = pageStatus w"
  "historyEntries (delay ms w) = historyEntries w"
  "events (delay ms w) = events w @ [Delay ms]"
  by (simp_all add: delay_def)

lemma notionPagesUpdate_fields [simp]:
  "fst (notionPagesUpdate env page st w) = pagesUpdate env page st"
  "pageStatus (snd (notionPagesUpdate env page st w))
     = (if pagesUpdate env page st then (pageStatus w)(page \<mapsto> st) else pageStatus w)"
  "historyEntries (snd (notionPagesUpdate env page st w)) = historyEntries w"
  "events (snd (notionPagesUpdate env page st w))
     = events w @ [StatusWrite page st (pagesUpdate env page st)]"
  by (simp_all add: notionPagesUpdate_def Let_def)

lemma setAnalysisError_fields [simp]:
  "pageStatus (setAnalysisError env page w)
     = (if pagesUpdate env page Error then (pageStatus w)(page \<mapsto> Error) else pageStatus w)"
  "historyEntries (setAnalysisError env page w) = historyEntries w"
  "events (setAnalysisError env page w)
     = events w @ [StatusWrite page Error (pagesUpdate env page Error)]"
  by (simp_all add: setAnalysisError_def)

lemma setAnalyzingStatus_history [simp]:
  "historyEntries (setAnalyzingStatus env subs w) = historyEntries w"
  unfolding setAnalyzingStatus_def by (induction subs arbitrary: w) simp_all

lemma setAnalyzingStatus_events:
  "events (setAnalyzingStatus env subs w)
     = events w @ map (\<lambda>s. StatusWrite (pageId s) Analyzing (pagesUpdate env (pageId s) Analyzing)) subs"
  unfolding setAnalyzingStatus_def by (induction subs arbitrary: w) simp_all

lemma broadcastError_history [simp]:
  "historyEntries (broadcastError env subs w) = historyEntries w"
  unfolding broadcastError_def by (induction subs arbitrary: w) simp_all

lemma broadcastError_events:
  "events (broadcastError env subs w)
     = events w @ map (\<lambda>s. StatusWrite (pageId s) Error (pagesUpdate env (pageId s) Error)) subs"
  unfolding broadcastError_def by (induction subs arbitrary: w) simp_all

lemma broadcastError_status:
  "pageStatus (broadcastError env subs w) page
     = (if page \<in> pageId ` set subs \<and> pagesUpdate env page Error then Some Error
        else pageStatus w page)"
  unfolding broadcastError_def by (induction subs arbitrary: w) auto

lemma analyzeLoop_frame:
  "historyEntries (snd (analyzeLoop env item n mc k w)) = historyEntries w \<and>
   pageStatus (snd (analyzeLoop env item n mc k w)) = pageStatus w \<and>
   filter isArchiveCall (events (snd (analyzeLoop env item n mc k w)))
     = filter isArchiveCall (events w)"
proof (induction env item n mc k w rule: analyzeLoop.induct)
  case (1 env item maxRetries marketContext attempt w)
  show ?case
  proof (cases "subscribers item")
    case Nil
    then show ?thesis
      by (subst (1 2 3) analyzeLoop.simps) (simp add: callAnalysis_def)
  next
    case (Cons s ss)
    then have ca: "callAnalysis env item marketContext attempt w
        = (analyzeStockCore env item marketContext attempt,
           logEvent (AnalyzeCall (ticker item) attempt) w)"
      by (simp add: callAnalysis_def)
    show ?thesis
    proof (cases "analyzeStockCore env item marketContext attempt")
      case (AnalysisThrew msg)
      then show ?thesis
        by (subst (1 2 3) analyzeLoop.simps) (simp add: ca)
    next
      case (AnalysisReturned result)
      show ?thesis
      proof (cases "attempt < maxRetries \<and> \<not> (r_success result \<or> \<not> isGeminiRateLimitError (r_error result))
                      \<and> attempt < maxRetries - 1")
        case True
        with "1.IH" [OF _ ca [symmetric, unfolded AnalysisReturned] ] AnalysisReturned
        show ?thesis
          by (subst (1 2 3) analyzeLoop.simps) (simp add: ca)
      next
        case False
        then show ?thesis
          by (subst (1 2 3) analyzeLoop.simps) (auto simp: ca AnalysisReturned)
      qed
    qed
  qed
qed

lemma analyzeWithRetry_frame:
  "historyEntries (snd (analyzeWithRetry env item n mc w)) = historyEntries w"
  "pageStatus (snd (analyzeWithRetry env item n mc w)) = pageStatus w"
  "filter isArchiveCall (events (snd (analyzeWithRetry env item n mc w)))
     = filter isArchiveCall (events w)"
  by (simp_all add: analyzeWithRetry_def analyzeLoop_frame)

lemma processItem_failed:
  assumes "\<not> DRY_RUN env"
    and "fst (analyzeWithRetry env item 3 mc (setAnalyzingStatus env (subscribers item) w)) = Inr r"
    and "\<not> r_success r \<or> \<not> validateAnalysisComplete env r"
  shows "processItem env mc item isLastItem (w, m)
     = (Inr (m\<lparr>failed := failed m + 1\<rparr>),
        broadcastError env (subscribers item)
          (snd (analyzeWithRetry env item 3 mc (setAnalyzingStatus env (subscribers item) w))))"
proof -
  obtain res w2 where a: "analyzeWithRetry env item 3 mc (setAnalyzingStatus env (subscribers item) w) = (res, w2)"
    by (cases "analyzeWithRetry env item 3 mc (setAnalyzingStatus env (subscribers item) w)")
  with assms(2) have res: "res = Inr r" by simp
  show ?thesis
    using assms(1,3) by (auto simp: processItem_def a res)
qed

text \<open>
  Claim C2. The analysis of a queue item fails terminally: \<open>analyzeWithRetry\<close> returns a
  result without success (a non-transient error, or the retries exhausted), or the result
  fails the completeness check. Then \<open>processQueue\<close> writes the Error status to the page
  of every subscriber of the item; each write stands alone, so every subscriber whose own
  write goes through ends with status Error whatever happens to the writes of the others;
  no history entry is created and none is asked for; the item counts as failed and the
  loop goes on with the next item.
\<close>

theorem terminal_failure_marks_every_subscriber:
  assumes "\<not> DRY_RUN env"
    and "fst (analyzeWithRetry env item 3 mc (setAnalyzingStatus env (subscribers item) w)) = Inr r"
    and "\<not> r_success r \<or> \<not> validateAnalysisComplete env r"
  shows "fst (processItem env mc item isLastItem (w, m)) = Inr (m\<lparr>failed := failed m + 1\<rparr>) \<and>
     (\<forall>s \<in> set (subscribers item).
        StatusWrite (pageId s) Error (pagesUpdate env (pageId s) Error)
          \<in> set (events (snd (processItem env mc item isLastItem (w, m)))) \<and>
        (pagesUpdate env (pageId s) Error \<longrightarrow>
           pageStatus (snd (processItem env mc item isLastItem (w, m))) (pageId s) = Some Error)) \<and>
     historyEntries (snd (processItem env mc item isLastItem (w, m))) = historyEntries w \<and>
     filter isArchiveCall (events (snd (processItem env mc item isLastItem (w, m))))
       = filter isArchiveCall (events w) \<and>
     processItems env mc (item # rest) (w, m)
       = processItems env mc rest
           (snd (processItem env mc item isLastItem (w, m)), m\<lparr>failed := failed m + 1\<rparr>)"
proof -
  let ?w2 = "snd (analyzeWithRetry env item 3 mc (setAnalyzingStatus env (subscribers item) w))"
  have p: "processItem env mc item b (w, m)
     = (Inr (m\<lparr>failed := failed m + 1\<rparr>), broadcastError env (subscribers item) ?w2)" for b
    using assms by (rule processItem_failed)
  have 1: "fst (processItem env mc item isLastItem (w, m)) = Inr (m\<lparr>failed := failed m + 1\<rparr>)"
    by (simp add: p)
  have 2: "StatusWrite (pageId s) Error (pagesUpdate env (pageId s) Error)
          \<in> set (events (snd (processItem env mc item isLastItem (w, m))))"
    if "s \<in> set (subscribers item)" for s
    using that by (simp add: p broadcastError_events)
  have 3: "pageStatus (snd (processItem env mc item isLastItem (w, m))) (pageId s) = Some Error"
    if "s \<in> set (subscribers item)" "pagesUpdate env (pageId s) Error" for s
    using that by (simp add: p broadcastError_status)
  have 4: "historyEntries (snd (processItem env mc item isLastItem (w, m))) = historyEntries w"
    by (simp add: p analyzeWithRetry_frame)
  have 5: "filter isArchiveCall (events (snd (processItem env mc item isLastItem (w, m))))
       = filter isArchiveCall (events w)"
    by (simp add: p broadcastError_events analyzeWithRetry_frame setAnalyzingStatus_events
        filter_map comp_def)
  have 6: "processItems env mc (item # rest) (w, m)
       = processItems env mc rest
           (snd (processItem env mc item isLastItem (w, m)), m\<lparr>failed := failed m + 1\<rparr>)"
    by (simp add: p)
  from 1 2 3 4 5 6 show ?thesis by blast
qed

text \<open>
  \<open>MSFT\<close> fails for good; of its three subscribers the second has a page whose Status
  cannot be written. The first and the third end with status Error all the same.
\<close>

theorem terminal_failure_marks_every_subscriber_witness:
  "\<not> DRY_RUN exEnv \<and>
   fst (analyzeWithRetry exEnv exFailingItem 3 None
          (setAnalyzingStatus exEnv (subscribers exFailingItem) emptyWorld))
     = Inr (exResult ''MSFT'' False (Some ''FMP request failed'')) \<and>
   \<not> r_success (exResult ''MSFT'' False (Some ''FMP request failed'')) \<and>
   map pageId (subscribers exFailingItem) = [''p1'', ''p-locked'', ''p3''] \<and>
   pagesUpdate exEnv ''p1'' Error \<and> \<not> pagesUpdate exEnv ''p-locked'' Error \<and>
   pagesUpdate exEnv ''p3'' Error \<and>
   pageStatus (snd (processItem exEnv None exFailingItem False (emptyWorld, exMetrics))) ''p1''
     = Some Error \<and>
   pageStatus (snd (processItem exEnv None exFailingItem False (emptyWorld, exMetrics))) ''p3''
     = Some Error \<and>
   historyEntries (snd (processItem exEnv None exFailingItem False (emptyWorld, exMetrics))) = [] \<and>
   fst (processItem exEnv None exFailingItem False (emptyWorld, exMetrics))
     = Inr (exMetrics\<lparr>failed := failed exMetrics + 1\<rparr>)"
proof -
  have h1: "\<not> DRY_RUN exEnv" by (simp add: exEnv_def)
  have h2: "fst (analyzeWithRetry exEnv exFailingItem 3 None
          (setAnalyzingStatus exEnv (subscribers exFailingItem) emptyWorld))
     = Inr (exResult ''MSFT'' False (Some ''FMP request failed''))" by code_simp
  have h3: "\<not> r_success (exResult ''MSFT'' False (Some ''FMP request failed''))
      \<or> \<not> validateAnalysisComplete exEnv (exResult ''MSFT'' False (Some ''FMP request failed''))"
    by (simp add: exResult_def)
  have h3': "\<not> r_success (exResult ''MSFT'' False (Some ''FMP request failed''))"
    by (simp add: exResult_def)
  have pages: "map pageId (subscribers exFailingItem) = [''p1'', ''p-locked'', ''p3'']"
    by (simp add: exFailingItem_def exItem_def mkQueueItem_def exSub_def)
  have mem: "exSub ''ua'' ''Pro'' ''p1'' \<in> set (subscribers exFailingItem)"
    "exSub ''uc'' ''Free'' ''p3'' \<in> set (subscribers exFailingItem)"
    by (simp_all add: exFailingItem_def exItem_def mkQueueItem_def)
  have ok: "pagesUpdate exEnv ''p1'' Error" "\<not> pagesUpdate exEnv ''p-locked'' Error"
    "pagesUpdate exEnv ''p3'' Error"
    by (simp_all add: exEnv_def)
  have pid: "pageId (exSub ''ua'' ''Pro'' ''p1'') = ''p1''" "pageId (exSub ''uc'' ''Free'' ''p3'') = ''p3''"
    by (simp_all add: exSub_def)
  have h0: "historyEntries emptyWorld = []" by (simp add: emptyWorld_def)
  note t = terminal_failure_marks_every_subscriber [OF h1 h2 h3, of False exMetrics]
  from t mem ok pid have s1:
    "pageStatus (snd (processItem exEnv None exFailingItem False (emptyWorld, exMetrics))) ''p1''
       = Some Error"
    by metis
  from t mem ok pid have s3:
    "pageStatus (snd (processItem exEnv None exFailingItem False (emptyWorld, exMetrics))) ''p3''
       = Some Error"
    by metis
  from t h0 have hist:
    "historyEntries (snd (processItem exEnv None exFailingItem False (emptyWorld, exMetrics))) = []"
    by simp
  from t have res: "fst (processItem exEnv None exFailingItem False (emptyWorld, exMetrics))
     = Inr (exMetrics\<lparr>failed := failed exMetrics + 1\<rparr>)"
    by simp
  from h1 h2 h3' pages ok s1 s3 hist res show ?thesis by blast
qed

subsection \<open>Pacing between subjects\<close>

text \<open>
  Claim C9 fails on the code. Two subjects in the chunk, a delay of 8000 ms configured:
  the analysis of the first fails, its subscriber is marked Error, and the second subject
  is analysed with no pause in between. After a subject that succeeds the pause is there.
\<close>

theorem no_pause_after_failed_subject:
  "ANALYSIS_DELAY_MS exEnv = 8000 \<and>
   events (snd (processQueue exEnv
       [exItem ''MSFT'' [exSub ''ua'' ''Pro'' ''p1''], exItem ''GOOG'' [exSub ''ub'' ''Pro'' ''p2'']]
       None 0 2 emptyWorld))
     = [StatusWrite ''p1'' Analyzing True, AnalyzeCall ''MSFT'' 0, StatusWrite ''p1'' Error True,
        StatusWrite ''p2'' Analyzing True, AnalyzeCall ''GOOG'' 0, SyncCall ''p2'' 0,
        StatusWrite ''p2'' Complete True, ArchiveCall ''p2''] \<and>
   events (snd (processQueue exEnv
       [exItem ''NVDA'' [exSub ''ua'' ''Pro'' ''p1''], exItem ''GOOG'' [exSub ''ub'' ''Pro'' ''p2'']]
       None 0 2 emptyWorld))
     = [StatusWrite ''p1'' Analyzing True, AnalyzeCall ''NVDA'' 0, SyncCall ''p1'' 0,
        StatusWrite ''p1'' Complete True, ArchiveCall ''p1'', Delay 8000,
        StatusWrite ''p2'' Analyzing True, AnalyzeCall ''GOOG'' 0, SyncCall ''p2'' 0,
        StatusWrite ''p2'' Complete True, ArchiveCall ''p2'']"
  by code_simp

subsection \<open>Broadcast and history\<close>

declare broadcastLoop.simps [simp del]

lemma trySync_eq:
  "trySync env s r k w
     = (if syncVerified env s r k then None
        else Some (case syncToNotion env s r k of
                     SyncThrew msg \<Rightarrow> msg
                   | SyncReturned p \<Rightarrow>
                       ''Sync failed: Stock Analyses page was not created or updated''),
        logEvent (SyncCall (pageId s) k) w)"
  by (simp add: trySync_def syncVerified_def Let_def split: SyncOutcome.splits)

lemma broadcastLoop_last:
  "broadcastLoop env s r 2 (Suc 0) w
     = (if syncVerified env s r 1
        then (Fulfilled,
              snd (notionPagesUpdate env (pageId s) Complete (logEvent (SyncCall (pageId s) 1) w)))
        else (Rejected (''Broadcast failed: '' @
                (case syncToNotion env s r 1 of
                   SyncThrew msg \<Rightarrow> msg
                 | SyncReturned p \<Rightarrow>
                     ''Sync failed: Stock Analyses page was not created or updated'')),
              setAnalysisError env (pageId s) (logEvent (SyncCall (pageId s) 1) w)))"
  by (subst broadcastLoop.simps) (simp add: trySync_eq)

lemma broadcastLoop_first:
  "broadcastLoop env s r 2 0 w
     = (if syncVerified env s r 0
        then (Fulfilled,
              snd (notionPagesUpdate env (pageId s) Complete (logEvent (SyncCall (pageId s) 0) w)))
        else broadcastLoop env s r 2 (Suc 0) (delay 5000 (logEvent (SyncCall (pageId s) 0) w)))"
  by (subst broadcastLoop.simps) (simp add: trySync_eq)

lemma broadcastToUser_outcome:
  "(fst (broadcastToUser env s r 2 w) = Fulfilled) = delivered env s r"
  by (simp add: broadcastToUser_def broadcastLoop_first broadcastLoop_last delivered_def)

lemma broadcastToUser_history:
  "historyEntries (snd (broadcastToUser env s r 2 w)) = historyEntries w"
  by (simp add: broadcastToUser_def broadcastLoop_first broadcastLoop_last)

lemma broadcastToUser_status:
  "pageStatus (snd (broadcastToUser env s r 2 w))
     = (pageStatus w)(pageId s := finalStatus env s r (pageStatus w (pageId s)))"
  by (auto simp: broadcastToUser_def broadcastLoop_first broadcastLoop_last finalStatus_def
      delivered_def)

lemma broadcastToSubscribers_Cons:
  "broadcastToSubscribers env (s # ss) r w
     = (fst (broadcastToUser env s r 2 w)
          # fst (broadcastToSubscribers env ss r (snd (broadcastToUser env s r 2 w))),
        snd (broadcastToSubscribers env ss r (snd (broadcastToUser env s r 2 w))))"
  by (simp split: prod.splits)

lemma broadcastToSubscribers_outcomes:
  "map (\<lambda>out. out = Fulfilled) (fst (broadcastToSubscribers env subs r w))
     = map (\<lambda>s. delivered env s r) subs"
proof (induction subs arbitrary: w)
  case Nil
  then show ?case by simp
next
  case (Cons s ss)
  show ?case
    by (simp only: broadcastToSubscribers_Cons fst_conv list.map Cons.IH broadcastToUser_outcome)
qed

lemma broadcastToSubscribers_length:
  "length (fst (broadcastToSubscribers env subs r w)) = length subs"
  using broadcastToSubscribers_outcomes [of env subs r w] by (metis length_map)

lemma broadcastToSubscribers_nth:
  assumes "j < length subs"
  shows "(fst (broadcastToSubscribers env subs r w) ! j = Fulfilled) = delivered env (subs ! j) r"
proof -
  have "map (\<lambda>out. out = Fulfilled) (fst (broadcastToSubscribers env subs r w)) ! j
          = map (\<lambda>s. delivered env s r) subs ! j"
    by (simp only: broadcastToSubscribers_outcomes)
  with assms show ?thesis by (simp add: broadcastToSubscribers_length)
qed

lemma broadcastToSubscribers_history:
  "historyEntries (snd (broadcastToSubscribers env subs r w)) = historyEntries w"
proof (induction subs arbitrary: w)
  case Nil
  then show ?case by simp
next
  case (Cons s ss)
  show ?case
    by (simp only: broadcastToSubscribers_Cons snd_conv Cons.IH broadcastToUser_history)
qed

lemma broadcastToSubscribers_other_pages:
  "page \<notin> pageId ` set subs \<Longrightarrow>
   pageStatus (snd (broadcastToSubscribers env subs r w)) page = pageStatus w page"
proof (induction subs arbitrary: w)
  case Nil
  then show ?case by simp
next
  case (Cons s ss)
  then have "page \<notin> pageId ` set ss" "page \<noteq> pageId s" by auto
  then show ?case
    by (simp add: broadcastToSubscribers_Cons Cons.IH broadcastToUser_status del: broadcastToSubscribers.simps)
qed

lemma broadcastToSubscribers_status:
  "distinct (map pageId subs) \<Longrightarrow> s \<in> set subs \<Longrightarrow>
   pageStatus (snd (broadcastToSubscribers env subs r w)) (pageId s)
     = finalStatus env s r (pageStatus w (pageId s))"
proof (induction subs arbitrary: w)
  case Nil
  then show ?case by simp
next
  case (Cons a ss)
  show ?case
  proof (cases "s = a")
    case True
    from Cons.prems(1) have "pageId a \<notin> pageId ` set ss" by simp
    then show ?thesis
      by (simp add: True broadcastToSubscribers_Cons
            broadcastToSubscribers_other_pages broadcastToUser_status del: broadcastToSubscribers.simps)
  next
    case False
    with Cons.prems have in_ss: "s \<in> set ss" and d: "distinct (map pageId ss)"
      and ne: "pageId s \<noteq> pageId a" by (auto simp: image_iff)
    show ?thesis
      by (simp add: broadcastToSubscribers_Cons Cons.IH [OF d in_ss]
            broadcastToUser_status ne del: broadcastToSubscribers.simps)
  qed
qed

lemma createHistory_fields [simp]:
  "pageStatus (createHistory env mc s w) = pageStatus w"
  "historyEntries (createHistory env mc s w)
     = historyEntries w @ (if archived env mc s then [(userId s, pageId s)] else [])"
  by (simp_all add: createHistory_def archived_def Let_def split: ArchiveOutcome.splits)

lemma fold_createHistory_status [simp]:
  "pageStatus (fold (createHistory env mc) us w) = pageStatus w"
  by (induction us arbitrary: w) simp_all

lemma fold_createHistory_history:
  "historyEntries (fold (createHistory env mc) us w)
     = historyEntries w @ map (\<lambda>s. (userId s, pageId s)) (filter (archived env mc) us)"
  by (induction us arbitrary: w) simp_all

lemma uniqueSubscribers_fold:
  "uniqueSubscribers subs rs = fold uniqueStep (zip subs rs) []"
proof -
  have "(\<lambda>(subscriber, broadcastResult) acc.
             if broadcastResult = Fulfilled \<and> userId subscriber \<notin> userId ` set acc
             then acc @ [subscriber] else acc) = uniqueStep"
    by (auto simp: uniqueStep_def fun_eq_iff)
  then show ?thesis by (simp add: uniqueSubscribers_def)
qed

lemma fold_uniqueStep_covers:
  "userId ` set acc \<union> {userId s | s. (s, Fulfilled) \<in> set ps}
     \<subseteq> userId ` set (fold uniqueStep ps acc)"
proof (induction ps arbitrary: acc)
  case Nil
  then show ?case by simp
next
  case (Cons p ps)
  have "userId ` set acc \<union> {userId s | s. (s, Fulfilled) \<in> set (p # ps)}
          \<subseteq> userId ` set (uniqueStep p acc) \<union> {userId s | s. (s, Fulfilled) \<in> set ps}"
    by (cases p) (auto simp: uniqueStep_def)
  also have "\<dots> \<subseteq> userId ` set (fold uniqueStep ps (uniqueStep p acc))"
    by (rule Cons.IH)
  finally show ?case by simp
qed

lemma fold_uniqueStep_subset:
  "set (fold uniqueStep ps acc) \<subseteq> set acc \<union> fst ` set ps"
proof (induction ps arbitrary: acc)
  case Nil
  then show ?case by simp
next
  case (Cons p ps)
  have "set (fold uniqueStep ps (uniqueStep p acc)) \<subseteq> set (uniqueStep p acc) \<union> fst ` set ps"
    by (rule Cons.IH)
  also have "\<dots> \<subseteq> set acc \<union> fst ` set (p # ps)"
    by (auto simp: uniqueStep_def)
  finally show ?case by simp
qed

lemma uniqueSubscribers_subset: "set (uniqueSubscribers subs rs) \<subseteq> set subs"
proof -
  have "set (uniqueSubscribers subs rs) \<subseteq> fst ` set (zip subs rs)"
    using fold_uniqueStep_subset [of "zip subs rs" "[]"] by (simp add: uniqueSubscribers_fold)
  also have "\<dots> \<subseteq> set subs" by (auto dest: set_zip_leftD)
  finally show ?thesis .
qed

lemma uniqueSubscribers_covers:
  assumes "j < length subs" "length rs = length subs" "rs ! j = Fulfilled"
  shows "\<exists>s' \<in> set (uniqueSubscribers subs rs). userId s' = userId (subs ! j)"
proof -
  have "(subs ! j, Fulfilled) \<in> set (zip subs rs)"
    using assms by (auto simp: set_zip)
  then have "userId (subs ! j) \<in> {userId s | s. (s, Fulfilled) \<in> set (zip subs rs)}" by blast
  with fold_uniqueStep_covers [of "[]" "zip subs rs"]
  have "userId (subs ! j) \<in> userId ` set (uniqueSubscribers subs rs)"
    by (auto simp: uniqueSubscribers_fold)
  then show ?thesis by auto
qed

lemma countFulfilled_pos:
  assumes "j < length rs" "rs ! j = Fulfilled"
  shows "0 < countFulfilled rs"
proof -
  have "rs ! j \<in> set rs" using assms(1) by (rule nth_mem)
  then have "rs ! j \<in> set (filter (\<lambda>r. r = Fulfilled) rs)" using assms(2) by simp
  then have "filter (\<lambda>r. r = Fulfilled) rs \<noteq> []" by (metis empty_iff list.set(1))
  then show ?thesis by (simp add: countFulfilled_def)
qed

lemma processItem_success:
  assumes "\<not> DRY_RUN env"
    and "fst (analyzeWithRetry env item 3 mc (setAnalyzingStatus env (subscribers item) w)) = Inr r"
    and "r_success r" and "validateAnalysisComplete env r"
  shows "\<exists>w2 m' w3.
     w2 = snd (analyzeWithRetry env item 3 mc (setAnalyzingStatus env (subscribers item) w)) \<and>
     w3 = snd (broadcastToSubscribers env (subscribers item) r w2) \<and>
     fst (processItem env mc item isLastItem (w, m)) = Inr m' \<and>
     pageStatus (snd (processItem env mc item isLastItem (w, m))) = pageStatus w3 \<and>
     historyEntries (snd (processItem env mc item isLastItem (w, m)))
       = (if 0 < countFulfilled (fst (broadcastToSubscribers env (subscribers item) r w2))
          then historyEntries w3 @ map (\<lambda>s. (userId s, pageId s))
                 (filter (archived env mc)
                    (uniqueSubscribers (subscribers item)
                       (fst (broadcastToSubscribers env (subscribers item) r w2))))
          else historyEntries w3)"
proof -
  obtain res w2 where a: "analyzeWithRetry env item 3 mc (setAnalyzingStatus env (subscribers item) w) = (res, w2)"
    by (cases "analyzeWithRetry env item 3 mc (setAnalyzingStatus env (subscribers item) w)")
  with assms(2) have res: "res = Inr r" by simp
  obtain rs w3 where b: "broadcastToSubscribers env (subscribers item) r w2 = (rs, w3)"
    by (cases "broadcastToSubscribers env (subscribers item) r w2")
  show ?thesis
    using assms(1,3,4)
    by (simp add: processItem_def a res b Let_def fold_createHistory_history)
qed

lemma setAnalyzingStatus_status:
  "pageStatus (setAnalyzingStatus env subs w) page
     = (if page \<in> pageId ` set subs then statusWhileAnalyzing env w page else pageStatus w page)"
  unfolding setAnalyzingStatus_def statusWhileAnalyzing_def
  by (induction subs arbitrary: w) auto

lemma filter_seen:
  "filter (\<lambda>t. userId t \<noteq> userId s) (filter (\<lambda>t. userId t \<notin> userId ` set acc) xs)
     = filter (\<lambda>t. userId t \<notin> userId ` set (acc @ [s])) xs"
  by (induction xs) auto

lemma fold_uniqueStep_firstPerUser:
  "fold uniqueStep ps acc
     = acc @ firstPerUser (filter (\<lambda>t. userId t \<notin> userId ` set acc)
                             (map fst (filter (\<lambda>p. snd p = Fulfilled) ps)))"
proof (induction ps arbitrary: acc)
  case Nil
  then show ?case by simp
next
  case (Cons p ps)
  show ?case
  proof (cases "snd p = Fulfilled \<and> userId (fst p) \<notin> userId ` set acc")
    case True
    then have "fold uniqueStep (p # ps) acc = fold uniqueStep ps (acc @ [fst p])"
      by (simp add: uniqueStep_def)
    also have "\<dots> = (acc @ [fst p]) @ firstPerUser
        (filter (\<lambda>t. userId t \<notin> userId ` set (acc @ [fst p]))
           (map fst (filter (\<lambda>p. snd p = Fulfilled) ps)))"
      by (rule Cons.IH)
    also have "\<dots> = acc @ fst p # firstPerUser
        (filter (\<lambda>t. userId t \<noteq> userId (fst p))
           (filter (\<lambda>t. userId t \<notin> userId ` set acc)
              (map fst (filter (\<lambda>p. snd p = Fulfilled) ps))))"
      by (simp only: filter_seen append_assoc append_Cons append_Nil)
    also have "\<dots> = acc @ firstPerUser
        (fst p # filter (\<lambda>t. userId t \<notin> userId ` set acc)
                   (map fst (filter (\<lambda>p. snd p = Fulfilled) ps)))"
      by (simp only: firstPerUser.simps)
    also have "fst p # filter (\<lambda>t. userId t \<notin> userId ` set acc)
                   (map fst (filter (\<lambda>p. snd p = Fulfilled) ps))
        = filter (\<lambda>t. userId t \<notin> userId ` set acc)
                   (map fst (filter (\<lambda>p. snd p = Fulfilled) (p # ps)))"
      using True by simp
    finally show ?thesis .
  next
    case False
    then have "fold uniqueStep (p # ps) acc = fold uniqueStep ps acc"
      by (auto simp: uniqueStep_def)
    also have "\<dots> = acc @ firstPerUser (filter (\<lambda>t. userId t \<notin> userId ` set acc)
                             (map fst (filter (\<lambda>p. snd p = Fulfilled) ps)))"
      by (rule Cons.IH)
    also have "\<dots> = acc @ firstPerUser (filter (\<lambda>t. userId t \<notin> userId ` set acc)
                             (map fst (filter (\<lambda>p. snd p = Fulfilled) (p # ps))))"
      using False by auto
    finally show ?thesis .
  qed
qed

lemma fulfilled_subscribers:
  "length rs = length subs \<Longrightarrow> map (\<lambda>out. out = Fulfilled) rs = map P subs \<Longrightarrow>
   map fst (filter (\<lambda>p. snd p = Fulfilled) (zip subs rs)) = filter P subs"
  by (induction rs subs rule: list_induct2) auto

lemma uniqueSubscribers_firstPerUser:
  "uniqueSubscribers subs (fst (broadcastToSubscribers env subs r w))
     = firstPerUser (filter (\<lambda>s. delivered env s r) subs)"
  using fold_uniqueStep_firstPerUser [of "zip subs (fst (broadcastToSubscribers env subs r w))" "[]"]
  by (simp add: uniqueSubscribers_fold
      fulfilled_subscribers [OF broadcastToSubscribers_length broadcastToSubscribers_outcomes])

lemma countFulfilled_zero:
  assumes "length rs = length subs" and "\<not> 0 < countFulfilled rs"
  shows "uniqueSubscribers subs rs = []"
proof -
  from assms(2) have "\<forall>x \<in> set rs. x \<noteq> Fulfilled"
    by (auto simp: countFulfilled_def filter_empty_conv)
  then have "filter (\<lambda>p. snd p = Fulfilled) (zip subs rs) = []"
    by (auto simp: filter_empty_conv dest: set_zip_rightD)
  then show ?thesis
    using fold_uniqueStep_firstPerUser [of "zip subs rs" "[]"]
    by (simp add: uniqueSubscribers_fold)
qed

lemma processItem_history:
  assumes "\<not> DRY_RUN env"
    and "fst (analyzeWithRetry env item 3 mc (setAnalyzingStatus env (subscribers item) w)) = Inr r"
    and "r_success r" and "validateAnalysisComplete env r"
  shows "historyEntries (snd (processItem env mc item isLastItem (w, m)))
     = historyEntries w @ map (\<lambda>s. (userId s, pageId s))
         (filter (archived env mc)
            (firstPerUser (filter (\<lambda>s. delivered env s r) (subscribers item))))"
proof -
  let ?subs = "subscribers item"
  let ?w2 = "snd (analyzeWithRetry env item 3 mc (setAnalyzingStatus env ?subs w))"
  let ?rs = "fst (broadcastToSubscribers env ?subs r ?w2)"
  let ?w3 = "snd (broadcastToSubscribers env ?subs r ?w2)"
  from processItem_success [OF assms, of isLastItem m]
  have hist: "historyEntries (snd (processItem env mc item isLastItem (w, m)))
       = (if 0 < countFulfilled ?rs
          then historyEntries ?w3 @ map (\<lambda>s. (userId s, pageId s))
                 (filter (archived env mc) (uniqueSubscribers ?subs ?rs))
          else historyEntries ?w3)"
    by auto
  have len: "length ?rs = length ?subs" by (rule broadcastToSubscribers_length)
  have "historyEntries (snd (processItem env mc item isLastItem (w, m)))
       = historyEntries ?w3 @ map (\<lambda>s. (userId s, pageId s))
                 (filter (archived env mc) (uniqueSubscribers ?subs ?rs))"
    using countFulfilled_zero [OF len] by (simp add: hist)
  moreover have "historyEntries ?w3 = historyEntries w"
    by (simp add: broadcastToSubscribers_history analyzeWithRetry_frame)
  ultimately show ?thesis
    by (simp only: uniqueSubscribers_firstPerUser)
qed

lemma filter_all_but_one:
  assumes "k < length xs" and "\<not> P (xs ! k)" and "\<forall>j < length xs. j \<noteq> k \<longrightarrow> P (xs ! j)"
  shows "filter P xs = take k xs @ drop (Suc k) xs"
proof -
  have xs: "xs = take k xs @ xs ! k # drop (Suc k) xs"
    using assms(1) by (rule id_take_nth_drop)
  have t: "\<forall>x \<in> set (take k xs). P x"
  proof
    fix x assume "x \<in> set (take k xs)"
    then obtain i where "i < length (take k xs)" "take k xs ! i = x"
      by (auto simp: in_set_conv_nth)
    then have "i < length xs" "i \<noteq> k" "xs ! i = x" using assms(1) by auto
    with assms(3) show "P x" by blast
  qed
  have d: "\<forall>x \<in> set (drop (Suc k) xs). P x"
  proof
    fix x assume "x \<in> set (drop (Suc k) xs)"
    then obtain i where i: "i < length (drop (Suc k) xs)" "drop (Suc k) xs ! i = x"
      by (auto simp: in_set_conv_nth)
    then have "Suc k + i < length xs" "Suc k + i \<noteq> k" "xs ! (Suc k + i) = x" by auto
    with assms(3) show "P x" by blast
  qed
  have "filter P xs = filter P (take k xs @ xs ! k # drop (Suc k) xs)"
    using xs by simp
  also have "\<dots> = take k xs @ drop (Suc k) xs"
    using t d assms(2) by (simp add: filter_id_conv)
  finally show ?thesis .
qed

text \<open>
  Claim C3, as amended. The analysis of a subject succeeds and is complete, its subscribers
  are on distinct pages, and the delivery to exactly one of them fails at both of its two
  attempts, every other delivery succeeding within its two attempts. Then Error is written
  to the page of that subscriber and Complete to the page of every other one; a status
  write that is refused is swallowed, and the page is left as it was while the subject was
  analyzed. History entries are asked for once per user, for the first of the other
  subscribers of each user and never for the one that failed, and one exists where
  \<open>archiveToHistory\<close> returned an id. The join of the broadcast returns one outcome per
  subscriber, rejected for the one and fulfilled for all others, whatever the order of the
  subscribers.
\<close>

theorem one_delivery_failure_is_isolated:
  assumes nd: "\<not> DRY_RUN env"
    and an: "fst (analyzeWithRetry env item 3 mc (setAnalyzingStatus env (subscribers item) w)) = Inr r"
    and ok: "r_success r" "validateAnalysisComplete env r"
    and dist: "distinct (map pageId (subscribers item))"
    and k: "k < length (subscribers item)"
    and fail: "\<not> delivered env (subscribers item ! k) r"
    and others: "\<forall>j < length (subscribers item). j \<noteq> k \<longrightarrow> delivered env (subscribers item ! j) r"
  shows "pageStatus (snd (processItem env mc item isLastItem (w, m))) (pageId (subscribers item ! k))
       = (if pagesUpdate env (pageId (subscribers item ! k)) Error then Some Error
          else statusWhileAnalyzing env w (pageId (subscribers item ! k))) \<and>
     (\<forall>j < length (subscribers item). j \<noteq> k \<longrightarrow>
        pageStatus (snd (processItem env mc item isLastItem (w, m))) (pageId (subscribers item ! j))
          = (if pagesUpdate env (pageId (subscribers item ! j)) Complete then Some Complete
             else statusWhileAnalyzing env w (pageId (subscribers item ! j)))) \<and>
     historyEntries (snd (processItem env mc item isLastItem (w, m)))
       = historyEntries w @ map (\<lambda>s. (userId s, pageId s))
           (filter (archived env mc)
              (firstPerUser (take k (subscribers item) @ drop (Suc k) (subscribers item)))) \<and>
     (\<forall>w2. length (fst (broadcastToSubscribers env (subscribers item) r w2))
             = length (subscribers item) \<and>
           (\<forall>j < length (subscribers item).
              (fst (broadcastToSubscribers env (subscribers item) r w2) ! j = Fulfilled) = (j \<noteq> k)))"
proof -
  let ?subs = "subscribers item"
  let ?w' = "snd (processItem env mc item isLastItem (w, m))"
  let ?w2 = "snd (analyzeWithRetry env item 3 mc (setAnalyzingStatus env ?subs w))"
  let ?w3 = "snd (broadcastToSubscribers env ?subs r ?w2)"
  from processItem_success [OF nd an ok, of isLastItem m]
  have st: "pageStatus ?w' = pageStatus ?w3"
    by auto
  have before: "pageStatus ?w2 (pageId s) = statusWhileAnalyzing env w (pageId s)"
    if "s \<in> set ?subs" for s
    using that by (simp add: analyzeWithRetry_frame setAnalyzingStatus_status)
  have memk: "?subs ! k \<in> set ?subs" using k by simp
  have 1: "pageStatus ?w' (pageId (?subs ! k))
       = (if pagesUpdate env (pageId (?subs ! k)) Error then Some Error
          else statusWhileAnalyzing env w (pageId (?subs ! k)))"
    using fail
    by (simp add: st broadcastToSubscribers_status [OF dist memk] finalStatus_def before [OF memk])
  have 2: "pageStatus ?w' (pageId (?subs ! j))
          = (if pagesUpdate env (pageId (?subs ! j)) Complete then Some Complete
             else statusWhileAnalyzing env w (pageId (?subs ! j)))"
    if j: "j < length ?subs" "j \<noteq> k" for j
  proof -
    have memj: "?subs ! j \<in> set ?subs" using j(1) by simp
    have del: "delivered env (?subs ! j) r" using others j by blast
    show ?thesis
      using del
      by (simp add: st broadcastToSubscribers_status [OF dist memj] finalStatus_def before [OF memj])
  qed
  have f: "filter (\<lambda>s. delivered env s r) ?subs = take k ?subs @ drop (Suc k) ?subs"
    using k fail others by (rule filter_all_but_one)
  have 3: "historyEntries ?w'
       = historyEntries w @ map (\<lambda>s. (userId s, pageId s))
           (filter (archived env mc) (firstPerUser (take k ?subs @ drop (Suc k) ?subs)))"
    using processItem_history [OF nd an ok, of isLastItem m] by (simp only: f)
  have 4: "length (fst (broadcastToSubscribers env ?subs r w2)) = length ?subs \<and>
           (\<forall>j < length ?subs.
              (fst (broadcastToSubscribers env ?subs r w2) ! j = Fulfilled) = (j \<noteq> k))" for w2
    using fail others
    by (auto simp: broadcastToSubscribers_length broadcastToSubscribers_nth)
  from 1 2 3 4 show ?thesis by blast
qed

text \<open>
  Claim C3 as stated fails. \<open>GOOG\<close> with three subscribers: the sync of the second one, on
  page \<open>p-bad\<close>, throws at both attempts, the two other deliveries succeed. The first
  subscriber is on a page whose Status cannot be written: the failure of the write of
  Complete is caught, and the page does not end with status Complete. The history database
  of the third is missing: \<open>archiveToHistory\<close> returns \<open>null\<close>, which is only logged, and the
  subscriber ends without an archive record.
\<close>

theorem swallowed_failures_counterexample:
  "fst (analyzeWithRetry exNoHistoryEnv exLockedItem 3 None
          (setAnalyzingStatus exNoHistoryEnv (subscribers exLockedItem) emptyWorld))
     = Inr (exResult ''GOOG'' True None) \<and>
   r_success (exResult ''GOOG'' True None) \<and>
   validateAnalysisComplete exNoHistoryEnv (exResult ''GOOG'' True None) \<and>
   map pageId (subscribers exLockedItem) = [''p-locked'', ''p-bad'', ''p3''] \<and>
   map userId (subscribers exLockedItem) = [''ua'', ''ub'', ''uc''] \<and>
   map (\<lambda>s. delivered exNoHistoryEnv s (exResult ''GOOG'' True None)) (subscribers exLockedItem)
     = [True, False, True] \<and>
   map (pageStatus (snd (processItem exNoHistoryEnv None exLockedItem True (emptyWorld, exMetrics))))
       [''p-locked'', ''p-bad'', ''p3'']
     = [None, Some Error, Some Complete] \<and>
   historyEntries (snd (processItem exNoHistoryEnv None exLockedItem True (emptyWorld, exMetrics)))
     = [(''ua'', ''p-locked'')]"
  by code_simp

text \<open>
  \<open>GOOG\<close> with three subscribers; the sync of the second one, on page \<open>p-bad\<close>, throws at
  both attempts.
\<close>

theorem one_delivery_failure_is_isolated_witness:
  "\<not> DRY_RUN exEnv \<and>
   fst (analyzeWithRetry exEnv exBroadcastItem 3 None
          (setAnalyzingStatus exEnv (subscribers exBroadcastItem) emptyWorld))
     = Inr (exResult ''GOOG'' True None) \<and>
   map pageId (subscribers exBroadcastItem) = [''p1'', ''p-bad'', ''p3''] \<and>
   \<not> delivered exEnv (subscribers exBroadcastItem ! 1) (exResult ''GOOG'' True None) \<and>
   delivered exEnv (subscribers exBroadcastItem ! 0) (exResult ''GOOG'' True None) \<and>
   delivered exEnv (subscribers exBroadcastItem ! 2) (exResult ''GOOG'' True None) \<and>
   pageStatus (snd (processItem exEnv None exBroadcastItem True (emptyWorld, exMetrics))) ''p-bad''
     = Some Error \<and>
   pageStatus (snd (processItem exEnv None exBroadcastItem True (emptyWorld, exMetrics))) ''p1''
     = Some Complete \<and>
   pageStatus (snd (processItem exEnv None exBroadcastItem True (emptyWorld, exMetrics))) ''p3''
     = Some Complete \<and>
   historyEntries (snd (processItem exEnv None exBroadcastItem True (emptyWorld, exMetrics)))
     = [(''ua'', ''p1''), (''uc'', ''p3'')] \<and>
   map (\<lambda>out. out = Fulfilled)
     (fst (broadcastToSubscribers exEnv (subscribers exBroadcastItem) (exResult ''GOOG'' True None)
             emptyWorld))
     = [True, False, True]"
proof -
  let ?subs = "subscribers exBroadcastItem"
  let ?r = "exResult ''GOOG'' True None"
  let ?w' = "snd (processItem exEnv None exBroadcastItem True (emptyWorld, exMetrics))"
  have subs: "?subs = [exSub ''ua'' ''Pro'' ''p1'', exSub ''ub'' ''Free'' ''p-bad'', exSub ''uc'' ''Free'' ''p3'']"
    by (simp add: exBroadcastItem_def exItem_def mkQueueItem_def)
  have nd: "\<not> DRY_RUN exEnv" by (simp add: exEnv_def)
  have an: "fst (analyzeWithRetry exEnv exBroadcastItem 3 None (setAnalyzingStatus exEnv ?subs emptyWorld))
      = Inr ?r" by code_simp
  have ok: "r_success ?r" "validateAnalysisComplete exEnv ?r"
    by (simp_all add: exResult_def exEnv_def)
  have pages: "map pageId ?subs = [''p1'', ''p-bad'', ''p3'']"
    by (simp add: subs exSub_def)
  have dist: "distinct (map pageId ?subs)" by (simp add: pages)
  have k: "1 < length ?subs" by (simp add: subs)
  have d1: "\<not> delivered exEnv (?subs ! 1) ?r" by code_simp
  have d0: "delivered exEnv (?subs ! 0) ?r" by code_simp
  have d2: "delivered exEnv (?subs ! 2) ?r" by code_simp
  have others: "\<forall>j < length ?subs. j \<noteq> 1 \<longrightarrow> delivered exEnv (?subs ! j) ?r"
  proof (intro allI impI)
    fix j assume "j < length ?subs" "j \<noteq> 1"
    then have "j = 0 \<or> j = 2" by (auto simp: subs)
    with d0 d2 show "delivered exEnv (?subs ! j) ?r" by auto
  qed
  note t = one_delivery_failure_is_isolated [OF nd an ok dist k d1 others, of True exMetrics]
  have pid: "pageId (?subs ! 0) = ''p1''" "pageId (?subs ! 1) = ''p-bad''"
    "pageId (?subs ! 2) = ''p3''"
    by (simp_all add: subs exSub_def)
  have wr: "pagesUpdate exEnv ''p-bad'' Error" "pagesUpdate exEnv ''p1'' Complete"
    "pagesUpdate exEnv ''p3'' Complete"
    by (simp_all add: exEnv_def)
  have l: "0 < length ?subs" "2 < length ?subs" "(0::nat) \<noteq> 1" "(2::nat) \<noteq> 1"
    by (simp_all add: subs)
  from t have "pageStatus ?w' (pageId (?subs ! 1))
       = (if pagesUpdate exEnv (pageId (?subs ! 1)) Error then Some Error
          else statusWhileAnalyzing exEnv emptyWorld (pageId (?subs ! 1)))"
    by blast
  then have e: "pageStatus ?w' ''p-bad'' = Some Error"
    by (simp only: pid wr if_True)
  from t l(1,3) have "pageStatus ?w' (pageId (?subs ! 0))
          = (if pagesUpdate exEnv (pageId (?subs ! 0)) Complete then Some Complete
             else statusWhileAnalyzing exEnv emptyWorld (pageId (?subs ! 0)))"
    by blast
  then have c0: "pageStatus ?w' ''p1'' = Some Complete"
    by (simp only: pid wr if_True)
  from t l(2,4) have "pageStatus ?w' (pageId (?subs ! 2))
          = (if pagesUpdate exEnv (pageId (?subs ! 2)) Complete then Some Complete
             else statusWhileAnalyzing exEnv emptyWorld (pageId (?subs ! 2)))"
    by blast
  then have c2: "pageStatus ?w' ''p3'' = Some Complete"
    by (simp only: pid wr if_True)
  have rest: "map (\<lambda>s. (userId s, pageId s))
           (filter (archived exEnv None) (firstPerUser (take 1 ?subs @ drop (Suc 1) ?subs)))
      = [(''ua'', ''p1''), (''uc'', ''p3'')]"
    by code_simp
  from t have "historyEntries ?w'
       = historyEntries emptyWorld @ map (\<lambda>s. (userId s, pageId s))
           (filter (archived exEnv None) (firstPerUser (take 1 ?subs @ drop (Suc 1) ?subs)))"
    by blast
  then have h: "historyEntries ?w' = [(''ua'', ''p1''), (''uc'', ''p3'')]"
    by (simp only: rest) (simp add: emptyWorld_def)
  have outs: "map (\<lambda>out. out = Fulfilled) (fst (broadcastToSubscribers exEnv ?subs ?r emptyWorld))
      = [True, False, True]"
    by code_simp
  from nd an pages d1 d0 d2 e c0 c2 h outs show ?thesis
    by blast
qed

subsection \<open>The queue store\<close>

lemma redisRequest_served:
  "faults r = [] \<Longrightarrow> redisRequest cmd r = (Some 200, cmd r)"
  by (simp add: redisRequest_def nextFault_def)

lemma cmd_faults [simp]:
  "faults (cmdSet key v r) = faults r"
  "faults (cmdExpire key secs r) = faults r"
  "faults (cmdDel key r) = faults r"
  by (simp_all add: cmdSet_def cmdExpire_def cmdDel_def)

lemma cmd_kv [simp]:
  "kv (cmdSet key v r) = (kv r)(key \<mapsto> jsonStoredQueue v)"
  "kv (cmdExpire key secs r) = kv r"
  "kv (cmdDel key r) = (kv r)(key := None)"
  by (simp_all add: cmdSet_def cmdExpire_def cmdDel_def)

lemma responseOk_200 [simp]: "responseOk 200"
  by (simp add: responseOk_def)

lemma saveQueueToRedis_served:
  assumes "faults redis = []"
  shows "fst (saveQueueToRedis True today now queue mc chunk redis) = Inr (queueIdOf today)"
    and "faults (snd (saveQueueToRedis True today now queue mc chunk redis)) = []"
    and "kv (snd (saveQueueToRedis True today now queue mc chunk redis))
           = (kv redis)(queueIdOf today \<mapsto>
               \<lparr> sq_id = queueIdOf today, items = map jsonQueueItem queue,
                 processedCount = 0, totalCount = int (length queue), createdAt = now,
                 marketContext = mc, chunkSize = chunk, lastChunkAt = None \<rparr>)"
  using assms
  by (simp_all add: saveQueueToRedis_def Let_def redisRequest_served jsonStoredQueue_def)

lemma loadQueueFromRedis_served:
  assumes "faults redis = []"
  shows "loadQueueFromRedis True today None redis = (Inr (kv redis (queueIdOf today)), redis)"
  using assms
  by (simp add: loadQueueFromRedis_def Let_def redisRequest_served orElse_def)

lemma jsonQueueItem_fields [simp]:
  "ticker (jsonQueueItem item) = ticker item"
  "subscribers (jsonQueueItem item) = subscribers item"
  "priority (jsonQueueItem item) = jsonNumber (priority item)"
  "requestedAt (jsonQueueItem item) = jsonDate (requestedAt item)"
  by (simp_all add: jsonQueueItem_def)

lemma saveThenLoad_served:
  assumes "faults redis = []"
  shows "saveThenLoad today now queue mc chunk redis
     = Inr (Some \<lparr> sq_id = queueIdOf today, items = map jsonQueueItem queue,
                 processedCount = 0, totalCount = int (length queue), createdAt = now,
                 marketContext = mc, chunkSize = chunk, lastChunkAt = None \<rparr>)"
proof -
  let ?sq = "\<lparr> sq_id = queueIdOf today, items = map jsonQueueItem queue,
                 processedCount = 0, totalCount = int (length queue), createdAt = now,
                 marketContext = mc, chunkSize = chunk, lastChunkAt = None \<rparr>"
  obtain res r1 where s: "saveQueueToRedis True today now queue mc chunk redis = (res, r1)"
    by (cases "saveQueueToRedis True today now queue mc chunk redis")
  have res: "res = Inr (queueIdOf today)"
    using saveQueueToRedis_served(1) [OF assms, of today now queue mc chunk] by (simp add: s)
  have f1: "faults r1 = []"
    using saveQueueToRedis_served(2) [OF assms, of today now queue mc chunk] by (simp add: s)
  have "kv r1 = (kv redis)(queueIdOf today \<mapsto> ?sq)"
    using saveQueueToRedis_served(3) [OF assms, of today now queue mc chunk] by (simp add: s)
  then have k1: "kv r1 (queueIdOf today) = Some ?sq"
    by simp
  show ?thesis
    by (simp add: saveThenLoad_def s res loadQueueFromRedis_served [OF f1] k1)
qed

text \<open>
  What does come back. For every queue, shared context and chunk size, with the store
  serving its requests: a queue saved and loaded back on the same day comes with processed
  count 0, total count the length of the item list, the same context and chunk size, and
  an item list that agrees with the saved one item by item in ticker and subscribers, and
  in priority where that is a finite number; the \<open>requestedAt\<close> of an item, saved as a
  \<open>Date\<close>, comes back as the ISO text of that instant.
\<close>

lemma save_load_roundtrip:
  assumes "faults redis = []"
  shows "\<exists>sq. saveThenLoad today now queue mc chunk redis = Inr (Some sq) \<and>
     processedCount sq = 0 \<and> totalCount sq = int (length queue) \<and>
     marketContext sq = mc \<and> chunkSize sq = chunk \<and>
     items sq = map jsonQueueItem queue \<and>
     map ticker (items sq) = map ticker queue \<and>
     map subscribers (items sq) = map subscribers queue \<and>
     ((\<forall>item \<in> set queue. priority item \<noteq> Number \<infinity> \<and> priority item \<noteq> NaN)
        \<longrightarrow> map priority (items sq) = map priority queue) \<and>
     (\<forall>i t. i < length queue \<and> requestedAt (queue ! i) = DateObject t
        \<longrightarrow> requestedAt (items sq ! i) = IsoText t)"
proof -
  let ?sq = "\<lparr> sq_id = queueIdOf today, items = map jsonQueueItem queue,
                 processedCount = 0, totalCount = int (length queue), createdAt = now,
                 marketContext = mc, chunkSize = chunk, lastChunkAt = None \<rparr>"
  have l: "saveThenLoad today now queue mc chunk redis = Inr (Some ?sq)"
    using assms by (rule saveThenLoad_served)
  have p: "map priority (map jsonQueueItem queue) = map priority queue"
    if "\<forall>item \<in> set queue. priority item \<noteq> Number \<infinity> \<and> priority item \<noteq> NaN"
    using that by (induction queue) (simp_all add: jsonNumber_def)
  have d: "requestedAt (map jsonQueueItem queue ! i) = IsoText t"
    if "i < length queue" "requestedAt (queue ! i) = DateObject t" for i t
    using that by (simp add: jsonDate_def)
  have m: "map ticker (map jsonQueueItem queue) = map ticker queue"
    "map subscribers (map jsonQueueItem queue) = map subscribers queue"
    by (simp_all add: comp_def)
  show ?thesis
  proof (intro exI [of _ ?sq] conjI allI impI)
    show "saveThenLoad today now queue mc chunk redis = Inr (Some ?sq)" by (rule l)
    show "map priority (items ?sq) = map priority queue"
      if "\<forall>item \<in> set queue. priority item \<noteq> Number \<infinity> \<and> priority item \<noteq> NaN"
      using p [OF that] by simp
    show "requestedAt (items ?sq ! i) = IsoText t"
      if "i < length queue \<and> requestedAt (queue ! i) = DateObject t" for i t
      using d [of i t] that by simp
  qed (simp_all add: m)
qed

text \<open>
  Claim C7 fails on the code. \<open>loadQueueFromRedis\<close> returns what \<open>JSON.parse\<close> gives as a
  \<open>StoredQueue\<close>, whose items are declared \<open>QueueItem\<close> with \<open>requestedAt\<close> a \<open>Date\<close>. The
  items were saved with a \<open>Date\<close>; they come back with the ISO text in its place, and the
  item list loaded is not the item list saved. Processed count and total count do come
  back, 0 and the length of the list.
\<close>

theorem loaded_requestedAt_is_text:
  "itemsOf (saveThenLoad ''2025-12-01'' 0 exQueue None 8 emptyRedis) \<noteq> exQueue \<and>
   map requestedAt (itemsOf (saveThenLoad ''2025-12-01'' 0 exQueue None 8 emptyRedis))
     = [IsoText 0, IsoText 0] \<and>
   map requestedAt exQueue = [DateObject 0, DateObject 0] \<and>
   saveThenLoad ''2025-12-01'' 0 exQueue None 8 emptyRedis
     = Inr (Some \<lparr> sq_id = queueIdOf ''2025-12-01'', items = map jsonQueueItem exQueue,
                 processedCount = 0, totalCount = 2, createdAt = 0,
                 marketContext = None, chunkSize = 8, lastChunkAt = None \<rparr>)"
proof -
  have f: "faults emptyRedis = []" by (simp add: emptyRedis_def)
  have i: "itemsOf (saveThenLoad ''2025-12-01'' 0 exQueue None 8 emptyRedis)
     = map jsonQueueItem exQueue"
    by (simp add: saveThenLoad_served [OF f] itemsOf_def)
  have b: "map requestedAt exQueue = [DateObject 0, DateObject 0]"
    by (simp add: exQueue_def exItem_def mkQueueItem_def)
  have a: "map requestedAt (itemsOf (saveThenLoad ''2025-12-01'' 0 exQueue None 8 emptyRedis))
     = [IsoText 0, IsoText 0]"
    unfolding i by (simp add: exQueue_def exItem_def mkQueueItem_def jsonDate_def)
  have n: "itemsOf (saveThenLoad ''2025-12-01'' 0 exQueue None 8 emptyRedis) \<noteq> exQueue"
  proof
    assume "itemsOf (saveThenLoad ''2025-12-01'' 0 exQueue None 8 emptyRedis) = exQueue"
    with a b show False by simp
  qed
  have len: "int (length exQueue) = 2" by (simp add: exQueue_def)
  have whole: "saveThenLoad ''2025-12-01'' 0 exQueue None 8 emptyRedis
     = Inr (Some \<lparr> sq_id = queueIdOf ''2025-12-01'', items = map jsonQueueItem exQueue,
                 processedCount = 0, totalCount = 2, createdAt = 0,
                 marketContext = None, chunkSize = 8, lastChunkAt = None \<rparr>)"
    using saveThenLoad_served [OF f, of "''2025-12-01''" 0 exQueue None 8] by (simp add: len)
  from n a b whole show ?thesis by (intro conjI)
qed

lemma redisRequest_fault:
  "faults r = Some BackendError # fs \<Longrightarrow> redisRequest cmd r = (Some 500, r\<lparr>faults := fs\<rparr>)"
  "faults r = Some NotFound # fs \<Longrightarrow> redisRequest cmd r = (Some 404, r\<lparr>faults := fs\<rparr>)"
  "faults r = Some NetworkFailure # fs \<Longrightarrow> redisRequest cmd r = (None, r\<lparr>faults := fs\<rparr>)"
  "faults r = None # fs \<Longrightarrow> redisRequest cmd r = (Some 200, cmd (r\<lparr>faults := fs\<rparr>))"
  by (simp_all add: redisRequest_def nextFault_def)

lemma responseOk_errors [simp]: "\<not> responseOk 500" "\<not> responseOk 404"
  by (simp_all add: responseOk_def)

lemma updateProcessedCount_write_refused:
  assumes "faults r = [None, Some BackendError]" and "kv r queueId = Some sq"
  shows "fst (updateProcessedCount True now queueId n r) = Inr ()"
    and "kv (snd (updateProcessedCount True now queueId n r)) queueId = Some sq"
  using assms
  by (simp_all add: updateProcessedCount_def redisRequest_fault)

lemma deleteQueue_refused:
  assumes "faults r = [Some BackendError]"
  shows "fst (deleteQueue True queueId r) = Inr ()"
    and "kv (snd (deleteQueue True queueId r)) = kv r"
  using assms
  by (simp_all add: deleteQueue_def redisRequest_fault)

lemma saveQueueToRedis_refused:
  assumes "faults r = [Some BackendError]"
  shows "fst (saveQueueToRedis True today now queue mc chunk r) = Inl (SetFailed 500)"
  using assms
  by (simp add: saveQueueToRedis_def Let_def redisRequest_fault)

lemma exSavedRedis_kv:
  "kv exSavedRedis (queueIdOf ''2025-12-01'')
     = Some \<lparr> sq_id = queueIdOf ''2025-12-01'', items = map jsonQueueItem exQueue,
              processedCount = 0, totalCount = int (length exQueue), createdAt = 0,
              marketContext = None, chunkSize = 8, lastChunkAt = None \<rparr>"
proof -
  have f: "faults emptyRedis = []" by (simp add: emptyRedis_def)
  show ?thesis
    unfolding exSavedRedis_def
    by (simp add: saveQueueToRedis_served(3) [OF f])
qed

text \<open>
  Claim C8 fails on the code. The queue of 2025-12-01 is in the store with processed
  count 0. The write of \<open>updateProcessedCount\<close> is answered by a backend error (status
  500): the function returns normally and the stored count is still 0. The same for
  \<open>deleteQueue\<close>: it returns normally and the queue is still there. \<open>saveQueueToRedis\<close>,
  which checks \<open>response.ok\<close>, throws on the same answer.
\<close>

theorem backend_error_on_write_is_swallowed:
  "fst (updateProcessedCount True 1 (queueIdOf ''2025-12-01'') 8
          (exSavedRedis\<lparr>faults := [None, Some BackendError]\<rparr>)) = Inr () \<and>
   map_option processedCount
     (kv (snd (updateProcessedCount True 1 (queueIdOf ''2025-12-01'') 8
                 (exSavedRedis\<lparr>faults := [None, Some BackendError]\<rparr>)))
         (queueIdOf ''2025-12-01'')) = Some 0 \<and>
   fst (deleteQueue True (queueIdOf ''2025-12-01'')
          (exSavedRedis\<lparr>faults := [Some BackendError]\<rparr>)) = Inr () \<and>
   map_option processedCount
     (kv (snd (deleteQueue True (queueIdOf ''2025-12-01'')
                 (exSavedRedis\<lparr>faults := [Some BackendError]\<rparr>)))
         (queueIdOf ''2025-12-01'')) = Some 0 \<and>
   fst (saveQueueToRedis True ''2025-12-01'' 0 exQueue None 8
          (emptyRedis\<lparr>faults := [Some BackendError]\<rparr>)) = Inl (SetFailed 500)"
proof -
  let ?key = "queueIdOf ''2025-12-01''"
  let ?r2 = "exSavedRedis\<lparr>faults := [None, Some BackendError]\<rparr>"
  let ?r1 = "exSavedRedis\<lparr>faults := [Some BackendError]\<rparr>"
  have f2: "faults ?r2 = [None, Some BackendError]" by simp
  have f1: "faults ?r1 = [Some BackendError]" by simp
  have f0: "faults (emptyRedis\<lparr>faults := [Some BackendError]\<rparr>) = [Some BackendError]" by simp
  have k2: "kv ?r2 ?key = kv exSavedRedis ?key" by simp
  have k1: "kv ?r1 = kv exSavedRedis" by simp
  note k = exSavedRedis_kv
  have a: "fst (updateProcessedCount True 1 ?key 8 ?r2) = Inr ()"
    by (rule updateProcessedCount_write_refused(1) [OF f2 k2 [unfolded k]])
  have b: "map_option processedCount (kv (snd (updateProcessedCount True 1 ?key 8 ?r2)) ?key) = Some 0"
    by (simp only: updateProcessedCount_write_refused(2) [OF f2 k2 [unfolded k]]) simp
  have c: "fst (deleteQueue True ?key ?r1) = Inr ()"
    by (rule deleteQueue_refused(1) [OF f1])
  have d: "map_option processedCount (kv (snd (deleteQueue True ?key ?r1)) ?key) = Some 0"
    by (simp only: deleteQueue_refused(2) [OF f1] k1 k) simp
  have e: "fst (saveQueueToRedis True ''2025-12-01'' 0 exQueue None 8
          (emptyRedis\<lparr>faults := [Some BackendError]\<rparr>)) = Inl (SetFailed 500)"
    by (rule saveQueueToRedis_refused [OF f0])
  from a b c d e show ?thesis by blast
qed

subsection \<open>Chunks and the checkpoint\<close>

lemma analyzeWithRetry_returns: "\<exists>r. fst (analyzeWithRetry env item 3 mc w) = Inr r"
proof (cases "subscribers item = []")
  case True
  then show ?thesis
    unfolding analyzeWithRetry_def
    by (subst analyzeLoop.simps) (simp add: callAnalysis_def)
next
  case False
  then show ?thesis
    by (simp add: analyzeWithRetry_unfold Let_def)
qed

lemma processItem_counts:
  "\<exists>m'. fst (processItem env mc item b (w, m)) = Inr m' \<and> attempted m' = attempted m + 1"
proof -
  obtain res w2 where a: "analyzeWithRetry env item 3 mc (setAnalyzingStatus env (subscribers item) w) = (res, w2)"
    by (cases "analyzeWithRetry env item 3 mc (setAnalyzingStatus env (subscribers item) w)")
  with analyzeWithRetry_returns [of env item mc "setAnalyzingStatus env (subscribers item) w"]
  obtain r where res: "res = Inr r" by auto
  obtain rs w3 where b: "broadcastToSubscribers env (subscribers item) r w2 = (rs, w3)"
    by (cases "broadcastToSubscribers env (subscribers item) r w2")
  show ?thesis
    by (simp add: processItem_def a res b Let_def attempted_def)
qed

lemma processItems_counts:
  "\<exists>m'. fst (processItems env mc its (w, m)) = Inr m' \<and> attempted m' = attempted m + length its"
proof (induction its arbitrary: w m)
  case Nil
  then show ?case by simp
next
  case (Cons item rest)
  obtain res w1 where p: "processItem env mc item (rest = []) (w, m) = (res, w1)"
    by (cases "processItem env mc item (rest = []) (w, m)")
  with processItem_counts [of env mc item "rest = []" w m]
  obtain m1 where m1: "res = Inr m1" "attempted m1 = attempted m + 1" by auto
  from Cons.IH [of w1 m1] obtain m' where
    "fst (processItems env mc rest (w1, m1)) = Inr m'" "attempted m' = attempted m1 + length rest"
    by blast
  then show ?case by (simp add: p m1)
qed

lemma attempted_initialMetrics [simp]: "attempted (initialMetrics queue) = 0"
  by (simp add: attempted_def initialMetrics_def)

lemma chunkItems_eq:
  assumes "0 \<le> start" "start \<le> int (length queue)" "0 \<le> chunk"
  shows "chunkItems queue start (min chunk (int (length queue) - start))
     = take (nat chunk) (drop (nat start) queue)"
proof -
  let ?k = "min chunk (int (length queue) - start)"
  have e: "min (start + ?k) (int (length queue)) - start = ?k" using assms by auto
  have "take (nat ?k) (drop (nat start) queue) = take (nat chunk) (drop (nat start) queue)"
  proof (cases "chunk \<le> int (length queue) - start")
    case True
    then show ?thesis by (simp add: min_def)
  next
    case False
    then have "length (drop (nat start) queue) \<le> nat chunk" "?k = int (length queue) - start"
      using assms by auto
    moreover have "nat (int (length queue) - start) = length (drop (nat start) queue)"
      using assms by auto
    ultimately show ?thesis by simp
  qed
  then show ?thesis by (simp add: chunkItems_def Let_def e)
qed

lemma processQueue_chunk:
  assumes "0 \<le> start" "start \<le> int (length queue)" "0 \<le> chunk"
  shows "processQueue env queue mc start (min chunk (int (length queue) - start)) w
     = processItems env mc (take (nat chunk) (drop (nat start) queue)) (w, initialMetrics queue)"
  using assms by (simp add: processQueue_def Let_def chunkItems_eq)

lemma length_chunk:
  assumes "0 \<le> start" "start \<le> int (length queue)" "0 \<le> chunk"
  shows "int (length (take (nat chunk) (drop (nat start) queue)))
     = min chunk (int (length queue) - start)"
  using assms by auto

lemma jsonQueueItem_idem [simp]: "jsonQueueItem (jsonQueueItem item) = jsonQueueItem item"
  by (simp add: jsonQueueItem_def jsonDate_def jsonNumber_def split: JSDate.splits)

lemma updateProcessedCount_served:
  assumes "faults r = []" and "kv r queueId = Some sq"
  shows "fst (updateProcessedCount True t queueId n r) = Inr ()"
    and "faults (snd (updateProcessedCount True t queueId n r)) = []"
    and "kv (snd (updateProcessedCount True t queueId n r))
           = (kv r)(queueId \<mapsto>
                jsonStoredQueue (sq\<lparr>processedCount := n, lastChunkAt := Some t\<rparr>))"
  using assms
  by (simp_all add: updateProcessedCount_def redisRequest_served)

lemma deleteQueue_served:
  assumes "faults r = []"
  shows "fst (deleteQueue True queueId r) = Inr ()"
    and "faults (snd (deleteQueue True queueId r)) = []"
    and "kv (snd (deleteQueue True queueId r)) = (kv r)(queueId := None)"
  using assms
  by (simp_all add: deleteQueue_def redisRequest_served)

lemma checkpoint_served:
  assumes c: "redisConfigured cron" and f: "faults r = []"
    and s: "storedAs r key qitems p mc"
  shows "\<exists>r'. checkpoint cron modeName key n (int (length qitems)) m r w
       = (ChunkDone \<lparr> mode = modeName, processedItems = n, summaryTotal = int (length qitems),
                       metrics = m, isComplete = (n \<ge> int (length qitems)) \<rparr>, r', w) \<and>
     faults r' = [] \<and>
     (if n \<ge> int (length qitems) then kv r' key = None
      else storedAs r' key (map jsonQueueItem qitems) n mc)"
proof -
  from s obtain sq where sq: "kv r key = Some sq" "sq_id sq = key" "items sq = qitems"
    "totalCount sq = int (length qitems)" "marketContext sq = mc"
    by (auto simp: storedAs_def split: option.splits)
  obtain u r1 where u: "updateProcessedCount True (cronNow cron) key n r = (u, r1)"
    by (cases "updateProcessedCount True (cronNow cron) key n r")
  have u1: "u = Inr ()" and f1: "faults r1 = []"
    and k1: "kv r1 = (kv r)(key \<mapsto> jsonStoredQueue (sq\<lparr>processedCount := n, lastChunkAt := Some (cronNow cron)\<rparr>))"
    using updateProcessedCount_served [OF f sq(1), of "cronNow cron" n] by (simp_all add: u)
  obtain d r2 where d: "deleteQueue True key r1 = (d, r2)"
    by (cases "deleteQueue True key r1")
  have d1: "d = Inr ()" and f2: "faults r2 = []" and k2: "kv r2 = (kv r1)(key := None)"
    using deleteQueue_served [OF f1, of key] by (simp_all add: d)
  show ?thesis
  proof (cases "n \<ge> int (length qitems)")
    case True
    then show ?thesis
      by (simp add: checkpoint_def c u u1 d d1 f2 k2 Let_def)
  next
    case False
    then show ?thesis
      by (simp add: checkpoint_def c u u1 f1 k1 Let_def storedAs_def jsonStoredQueue_def sq)
  qed
qed

lemma resumeChunk_served:
  assumes c: "redisConfigured cron" and f: "faults r = []"
    and q: "kv r key = Some q" and s: "storedAs r key qitems p mc"
    and p: "0 \<le> p" "p \<le> int (length qitems)" and ch: "0 \<le> CHUNK_SIZE cron"
  shows "\<exists>s' r'. resumeChunk cron q r w
       = (ChunkDone s', r',
          snd (processItems (cronEngine cron) mc
                 (take (nat (CHUNK_SIZE cron)) (drop (nat p) qitems)) (w, initialMetrics qitems))) \<and>
     mode s' = ''resume'' \<and>
     attempted (metrics s') = length (take (nat (CHUNK_SIZE cron)) (drop (nat p) qitems)) \<and>
     processedItems s' = p + int (attempted (metrics s')) \<and>
     isComplete s' = (processedItems s' \<ge> int (length qitems)) \<and>
     faults r' = [] \<and>
     (if processedItems s' \<ge> int (length qitems) then kv r' key = None
      else storedAs r' key (map jsonQueueItem qitems) (processedItems s') mc)"
proof -
  let ?its = "take (nat (CHUNK_SIZE cron)) (drop (nat p) qitems)"
  define k where "k = min (CHUNK_SIZE cron) (int (length qitems) - p)"
  define n where "n = p + k"
  from q s have qf: "sq_id q = key" "items q = qitems" "processedCount q = p"
    "totalCount q = int (length qitems)" "marketContext q = mc"
    by (simp_all add: storedAs_def)
  obtain res w1 where pi: "processItems (cronEngine cron) mc ?its (w, initialMetrics qitems) = (res, w1)"
    by (cases "processItems (cronEngine cron) mc ?its (w, initialMetrics qitems)")
  with processItems_counts [of "cronEngine cron" mc ?its w "initialMetrics qitems"]
  obtain m where m: "res = Inr m" "attempted m = length ?its" by auto
  have pq: "processQueue (cronEngine cron) qitems mc p k w = (Inr m, w1)"
    unfolding k_def by (simp add: processQueue_chunk [OF p ch] pi m)
  from checkpoint_served [OF c f s, of "''resume''" n m w1]
  obtain r' where r': "checkpoint cron ''resume'' key n (int (length qitems)) m r w1
       = (ChunkDone \<lparr> mode = ''resume'', processedItems = n, summaryTotal = int (length qitems),
                       metrics = m, isComplete = (n \<ge> int (length qitems)) \<rparr>, r', w1)"
    "faults r' = []"
    "if n \<ge> int (length qitems) then kv r' key = None
     else storedAs r' key (map jsonQueueItem qitems) n mc"
    by blast
  have n: "n = p + int (attempted m)"
    unfolding n_def k_def by (simp only: m(2) length_chunk [OF p ch])
  have rc: "resumeChunk cron q r w
      = (ChunkDone \<lparr> mode = ''resume'', processedItems = n, summaryTotal = int (length qitems),
                       metrics = m, isComplete = (n \<ge> int (length qitems)) \<rparr>, r', w1)"
    by (simp add: resumeChunk_def Let_def qf pq [unfolded k_def] r'(1) [unfolded n_def k_def] n_def k_def)
  have w1: "w1 = snd (processItems (cronEngine cron) mc ?its (w, initialMetrics qitems))"
    by (simp add: pi)
  let ?s = "\<lparr> mode = ''resume'', processedItems = n, summaryTotal = int (length qitems),
                       metrics = m, isComplete = (n \<ge> int (length qitems)) \<rparr>"
  have "resumeChunk cron q r w = (ChunkDone ?s, r',
          snd (processItems (cronEngine cron) mc ?its (w, initialMetrics qitems)))"
    by (simp only: rc w1 [symmetric])
  moreover have "mode ?s = ''resume''" by simp
  moreover have "attempted (metrics ?s) = length ?its" using m(2) by simp
  moreover have "processedItems ?s = p + int (attempted (metrics ?s))" using n by simp
  moreover have "isComplete ?s = (processedItems ?s \<ge> int (length qitems))" by simp
  moreover have "if processedItems ?s \<ge> int (length qitems) then kv r' key = None
      else storedAs r' key (map jsonQueueItem qitems) (processedItems ?s) mc"
    using r'(3) by simp
  ultimately show ?thesis using r'(2) by blast
qed

lemma map_jsonQueueItem_idem [simp]:
  "map jsonQueueItem (map jsonQueueItem queue) = map jsonQueueItem queue"
  by (induction queue) simp_all

lemma jsonQueueItem_comp [simp]: "jsonQueueItem \<circ> jsonQueueItem = jsonQueueItem"
  by (simp add: fun_eq_iff)

lemma checkpoint_served_json:
  assumes c: "redisConfigured cron" and f: "faults r = []"
    and s: "storedAs r key (map jsonQueueItem queue) p mc"
  shows "\<exists>r'. checkpoint cron modeName key n (int (length queue)) m r w
       = (ChunkDone \<lparr> mode = modeName, processedItems = n, summaryTotal = int (length queue),
                       metrics = m, isComplete = (n \<ge> int (length queue)) \<rparr>, r', w) \<and>
     faults r' = [] \<and>
     (if n \<ge> int (length queue) then kv r' key = None
      else storedAs r' key (map jsonQueueItem queue) n mc)"
  using checkpoint_served [OF c f s, of modeName n m w]
  by (simp only: length_map map_jsonQueueItem_idem)

lemma firstRun_served:
  assumes c: "redisConfigured cron" and f: "faults r = []"
    and u: "getAllUsers cron = Some users"
    and qu: "queue = buildPriorityQueue (cronEngineOrder cron) (cronNow cron)
                       (collectStockRequests (cronNotion cron) users)"
    and ch: "0 \<le> CHUNK_SIZE cron"
  shows "\<exists>s' r'. firstRun cron r w
       = (ChunkDone s', r',
          snd (processItems (cronEngine cron) (fetchMarketContext cron)
                 (take (nat (CHUNK_SIZE cron)) queue) (w, initialMetrics queue))) \<and>
     mode s' = ''first_run'' \<and>
     attempted (metrics s') = length (take (nat (CHUNK_SIZE cron)) queue) \<and>
     processedItems s' = int (attempted (metrics s')) \<and>
     isComplete s' = (processedItems s' \<ge> int (length queue)) \<and>
     faults r' = [] \<and>
     (if processedItems s' \<ge> int (length queue) then kv r' (queueIdOf (cronToday cron)) = None
      else storedAs r' (queueIdOf (cronToday cron)) (map jsonQueueItem queue) (processedItems s')
             (fetchMarketContext cron))"
proof -
  let ?key = "queueIdOf (cronToday cron)"
  let ?mc = "fetchMarketContext cron"
  let ?its = "take (nat (CHUNK_SIZE cron)) queue"
  let ?jq = "map jsonQueueItem queue"
  define n where "n = min (CHUNK_SIZE cron) (int (length queue))"
  obtain sv r1 where sv: "saveQueueToRedis True (cronToday cron) (cronNow cron) queue ?mc (CHUNK_SIZE cron) r = (sv, r1)"
    by (cases "saveQueueToRedis True (cronToday cron) (cronNow cron) queue ?mc (CHUNK_SIZE cron) r")
  have sv1: "sv = Inr ?key" and f1: "faults r1 = []"
    using saveQueueToRedis_served(1,2) [OF f, of "cronToday cron" "cronNow cron" queue ?mc "CHUNK_SIZE cron"]
    by (simp_all add: sv)
  have "kv r1 = (kv r)(?key \<mapsto>
               \<lparr> sq_id = ?key, items = ?jq,
                 processedCount = 0, totalCount = int (length queue), createdAt = cronNow cron,
                 marketContext = ?mc, chunkSize = CHUNK_SIZE cron, lastChunkAt = None \<rparr>)"
    using saveQueueToRedis_served(3) [OF f, of "cronToday cron" "cronNow cron" queue ?mc "CHUNK_SIZE cron"]
    by (simp add: sv)
  then have s1: "storedAs r1 ?key ?jq 0 ?mc"
    by (simp add: storedAs_def)
  obtain res w1 where pi: "processItems (cronEngine cron) ?mc ?its (w, initialMetrics queue) = (res, w1)"
    by (cases "processItems (cronEngine cron) ?mc ?its (w, initialMetrics queue)")
  with processItems_counts [of "cronEngine cron" ?mc ?its w "initialMetrics queue"]
  obtain m where m: "res = Inr m" "attempted m = length ?its" by auto
  have z: "(0::int) \<le> 0" "(0::int) \<le> int (length queue)" by simp_all
  have pq: "processQueue (cronEngine cron) queue ?mc 0 n w = (Inr m, w1)"
    using processQueue_chunk [OF z ch, of "cronEngine cron" ?mc w] by (simp add: pi m n_def)
  from checkpoint_served_json [OF c f1 s1, of "''first_run''" n m w1]
  obtain r' where r': "checkpoint cron ''first_run'' ?key n (int (length queue)) m r1 w1
       = (ChunkDone \<lparr> mode = ''first_run'', processedItems = n, summaryTotal = int (length queue),
                       metrics = m, isComplete = (n \<ge> int (length queue)) \<rparr>, r', w1)"
    "faults r' = []"
    "if n \<ge> int (length queue) then kv r' ?key = None
     else storedAs r' ?key ?jq n ?mc"
    by blast
  have n: "n = int (attempted m)"
    using length_chunk [OF z ch] by (simp add: m(2) n_def)
  have fr: "firstRun cron r w
      = (ChunkDone \<lparr> mode = ''first_run'', processedItems = n, summaryTotal = int (length queue),
                       metrics = m, isComplete = (n \<ge> int (length queue)) \<rparr>, r', w1)"
    using c by (simp add: firstRun_def u qu [symmetric] Let_def sv sv1 pq [unfolded n_def] r'(1) [unfolded n_def] n_def)
  have w1: "w1 = snd (processItems (cronEngine cron) ?mc ?its (w, initialMetrics queue))"
    by (simp add: pi)
  let ?s = "\<lparr> mode = ''first_run'', processedItems = n, summaryTotal = int (length queue),
                       metrics = m, isComplete = (n \<ge> int (length queue)) \<rparr>"
  have "firstRun cron r w = (ChunkDone ?s, r',
          snd (processItems (cronEngine cron) ?mc ?its (w, initialMetrics queue)))"
    by (simp only: fr w1 [symmetric])
  moreover have "mode ?s = ''first_run''" by simp
  moreover have "attempted (metrics ?s) = length ?its" using m(2) by simp
  moreover have "processedItems ?s = int (attempted (metrics ?s))" using n by simp
  moreover have "isComplete ?s = (processedItems ?s \<ge> int (length queue))" by simp
  moreover have "if processedItems ?s \<ge> int (length queue) then kv r' ?key = None
      else storedAs r' ?key ?jq (processedItems ?s) ?mc"
    using r'(3) by simp
  ultimately show ?thesis using r'(2) by blast
qed

lemma replaceFirst_prefix: "pat \<noteq> [] \<Longrightarrow> replaceFirst pat (pat @ s) = s"
  by (cases pat) simp_all

lemma handler_served:
  assumes "authHeader = Some (''Bearer '' @ CRON_SECRET cron)" and "CRON_SECRET cron \<noteq> []"
    and "checkNYSEMarketDay cron" and "redisConfigured cron" and "faults r = []"
  shows "handler cron authHeader r w
     = (case kv r (queueIdOf (cronToday cron)) of
          Some existingQueue \<Rightarrow> resumeChunk cron existingQueue r w
        | None \<Rightarrow> firstRun cron r w)"
proof -
  have "replaceFirst ''Bearer '' (''Bearer '' @ CRON_SECRET cron) = CRON_SECRET cron"
    by (rule replaceFirst_prefix) simp
  then have ps: "map_option (replaceFirst ''Bearer '') authHeader = Some (CRON_SECRET cron)"
    by (simp only: assms(1) option.map)
  show ?thesis
    using assms(2-4)
    by (simp add: handler_def ps Let_def falsy_def loadQueueFromRedis_served [OF assms(5)]
        del: replaceFirst.simps split: option.splits)
qed

lemma storedAs_Some: "storedAs r key qitems p mc \<Longrightarrow> \<exists>q. kv r key = Some q"
  by (simp add: storedAs_def split: option.splits)

lemma handler_first_run:
  assumes auth: "authHeader = Some (''Bearer '' @ CRON_SECRET cron)" "CRON_SECRET cron \<noteq> []"
    and day: "checkNYSEMarketDay cron" and conf: "redisConfigured cron"
    and users: "getAllUsers cron = Some users"
    and queue: "queue = buildPriorityQueue (cronEngineOrder cron) (cronNow cron)
                          (collectStockRequests (cronNotion cron) users)"
    and store: "faults redis = []"
    and ch: "0 \<le> CHUNK_SIZE cron" and none: "kv redis (queueIdOf (cronToday cron)) = None"
  shows "\<exists>s' r'. handler cron authHeader redis w
       = (ChunkDone s', r',
          snd (processItems (cronEngine cron) (fetchMarketContext cron)
                 (take (nat (CHUNK_SIZE cron)) queue) (w, initialMetrics queue))) \<and>
     mode s' = ''first_run'' \<and>
     attempted (metrics s') = length (take (nat (CHUNK_SIZE cron)) queue) \<and>
     processedItems s' = int (attempted (metrics s')) \<and>
     isComplete s' = (processedItems s' \<ge> int (length queue)) \<and>
     faults r' = [] \<and>
     (if processedItems s' \<ge> int (length queue) then kv r' (queueIdOf (cronToday cron)) = None
      else storedAs r' (queueIdOf (cronToday cron)) (map jsonQueueItem queue) (processedItems s')
             (fetchMarketContext cron))"
proof -
  have "handler cron authHeader redis w = firstRun cron redis w"
    by (simp add: handler_served [OF auth day conf store] none)
  with firstRun_served [OF conf store users queue ch, of w] show ?thesis by simp
qed

lemma handler_resume:
  assumes auth: "authHeader = Some (''Bearer '' @ CRON_SECRET cron)" "CRON_SECRET cron \<noteq> []"
    and day: "checkNYSEMarketDay cron" and conf: "redisConfigured cron"
    and store: "faults redis = []"
    and ch: "0 \<le> CHUNK_SIZE cron"
    and s: "storedAs redis (queueIdOf (cronToday cron)) qitems p mc"
    and p: "0 \<le> p" "p \<le> int (length qitems)"
  shows "\<exists>s' r'. handler cron authHeader redis w
       = (ChunkDone s', r',
          snd (processItems (cronEngine cron) mc
                 (take (nat (CHUNK_SIZE cron)) (drop (nat p) qitems)) (w, initialMetrics qitems))) \<and>
     mode s' = ''resume'' \<and>
     attempted (metrics s') = length (take (nat (CHUNK_SIZE cron)) (drop (nat p) qitems)) \<and>
     processedItems s' = p + int (attempted (metrics s')) \<and>
     isComplete s' = (processedItems s' \<ge> int (length qitems)) \<and>
     faults r' = [] \<and>
     (if processedItems s' \<ge> int (length qitems) then kv r' (queueIdOf (cronToday cron)) = None
      else storedAs r' (queueIdOf (cronToday cron)) (map jsonQueueItem qitems) (processedItems s') mc)"
proof -
  from storedAs_Some [OF s] obtain q where q: "kv redis (queueIdOf (cronToday cron)) = Some q" by blast
  have "handler cron authHeader redis w = resumeChunk cron q redis w"
    by (simp add: handler_served [OF auth day conf store] q)
  with resumeChunk_served [OF conf store q s p ch, of w] show ?thesis by simp
qed

text \<open>
  Claim C4. The handler is called with the right secret on a market day, the store is
  configured and serves its requests. With chunk size 8, a queue of 15 subjects and no
  queue stored for the day, the first invocation processes the items 0 to 7 and leaves the
  queue in the store with processed count 8; the second invocation, on what the first left,
  processes the items 8 to 14, reports processed count 15 and complete, and the queue is
  gone from the store. In general, for every chunk size that is not negative, in the first
  run and in every resume from a stored cursor within the queue, the new cursor is the old
  one plus the number of items the chunk attempted (analyzed or failed alike), completion
  is reported exactly when the new cursor reaches the total, and then the queue is deleted,
  otherwise it is stored with the new cursor.
\<close>

theorem chunked_checkpoint:
  assumes auth: "authHeader = Some (''Bearer '' @ CRON_SECRET cron)" "CRON_SECRET cron \<noteq> []"
    and day: "checkNYSEMarketDay cron" and conf: "redisConfigured cron"
    and users: "getAllUsers cron = Some users"
    and queue: "queue = buildPriorityQueue (cronEngineOrder cron) (cronNow cron)
                          (collectStockRequests (cronNotion cron) users)"
    and store: "faults redis = []"
  shows
    "(CHUNK_SIZE cron = 8 \<and> length queue = 15 \<and> kv redis (queueIdOf (cronToday cron)) = None \<longrightarrow>
       (\<exists>s1 r1 w1 s2 r2 w2.
          handler cron authHeader redis w = (ChunkDone s1, r1, w1) \<and>
          w1 = snd (processItems (cronEngine cron) (fetchMarketContext cron) (take 8 queue)
                      (w, initialMetrics queue)) \<and>
          attempted (metrics s1) = 8 \<and> processedItems s1 = 8 \<and> \<not> isComplete s1 \<and>
          storedAs r1 (queueIdOf (cronToday cron)) (map jsonQueueItem queue) 8 (fetchMarketContext cron) \<and>
          handler cron authHeader r1 w1 = (ChunkDone s2, r2, w2) \<and>
          w2 = snd (processItems (cronEngine cron) (fetchMarketContext cron)
                      (drop 8 (map jsonQueueItem queue))
                      (w1, initialMetrics (map jsonQueueItem queue))) \<and>
          attempted (metrics s2) = 7 \<and> processedItems s2 = 15 \<and> isComplete s2 \<and>
          kv r2 (queueIdOf (cronToday cron)) = None)) \<and>
     (0 \<le> CHUNK_SIZE cron \<and> kv redis (queueIdOf (cronToday cron)) = None \<longrightarrow>
       (\<exists>s' r' w'. handler cron authHeader redis w = (ChunkDone s', r', w') \<and>
          processedItems s' = int (attempted (metrics s')) \<and>
          attempted (metrics s') = length (take (nat (CHUNK_SIZE cron)) queue) \<and>
          isComplete s' = (processedItems s' \<ge> int (length queue)) \<and>
          (if processedItems s' \<ge> int (length queue)
           then kv r' (queueIdOf (cronToday cron)) = None
           else storedAs r' (queueIdOf (cronToday cron)) (map jsonQueueItem queue)
                  (processedItems s') (fetchMarketContext cron)))) \<and>
     (\<forall>qitems p mc.
        0 \<le> CHUNK_SIZE cron \<and> storedAs redis (queueIdOf (cronToday cron)) qitems p mc \<and>
        0 \<le> p \<and> p \<le> int (length qitems) \<longrightarrow>
       (\<exists>s' r' w'. handler cron authHeader redis w = (ChunkDone s', r', w') \<and>
          processedItems s' = p + int (attempted (metrics s')) \<and>
          attempted (metrics s')
            = length (take (nat (CHUNK_SIZE cron)) (drop (nat p) qitems)) \<and>
          isComplete s' = (processedItems s' \<ge> int (length qitems)) \<and>
          (if processedItems s' \<ge> int (length qitems)
           then kv r' (queueIdOf (cronToday cron)) = None
           else storedAs r' (queueIdOf (cronToday cron)) (map jsonQueueItem qitems)
                  (processedItems s') mc)))"
proof (intro conjI impI allI)
  let ?key = "queueIdOf (cronToday cron)"
  let ?mc = "fetchMarketContext cron"
  let ?jq = "map jsonQueueItem queue"
  assume a: "CHUNK_SIZE cron = 8 \<and> length queue = 15 \<and> kv redis ?key = None"
  then have ch: "0 \<le> CHUNK_SIZE cron" and c8: "CHUNK_SIZE cron = 8" and len: "length queue = 15"
    and none: "kv redis ?key = None" by simp_all
  from handler_first_run [OF auth day conf users queue store ch none, of w]
  obtain s1 r1 where 1:
    "handler cron authHeader redis w
       = (ChunkDone s1, r1,
          snd (processItems (cronEngine cron) ?mc (take (nat (CHUNK_SIZE cron)) queue)
                 (w, initialMetrics queue)))"
    "attempted (metrics s1) = length (take (nat (CHUNK_SIZE cron)) queue)"
    "processedItems s1 = int (attempted (metrics s1))"
    "isComplete s1 = (processedItems s1 \<ge> int (length queue))"
    "faults r1 = []"
    "if processedItems s1 \<ge> int (length queue) then kv r1 ?key = None
     else storedAs r1 ?key ?jq (processedItems s1) ?mc"
    by blast
  define w1 where "w1 = snd (processItems (cronEngine cron) ?mc (take 8 queue) (w, initialMetrics queue))"
  have a1: "attempted (metrics s1) = 8" using 1(2) by (simp add: c8 len)
  have p1: "processedItems s1 = 8" using 1(3) a1 by simp
  have nc1: "\<not> isComplete s1" using 1(4) by (simp add: p1 len)
  have st1: "storedAs r1 ?key ?jq 8 ?mc" using 1(6) by (simp add: p1 len)
  have h1: "handler cron authHeader redis w = (ChunkDone s1, r1, w1)"
    using 1(1) by (simp add: c8 w1_def)
  have b: "(0::int) \<le> 8" "(8::int) \<le> int (length ?jq)" by (simp_all add: len)
  from handler_resume [OF auth day conf 1(5) ch st1 b, of w1]
  obtain s2 r2 where 2:
    "handler cron authHeader r1 w1
       = (ChunkDone s2, r2,
          snd (processItems (cronEngine cron) ?mc (take (nat (CHUNK_SIZE cron)) (drop (nat 8) ?jq))
                 (w1, initialMetrics ?jq)))"
    "attempted (metrics s2) = length (take (nat (CHUNK_SIZE cron)) (drop (nat 8) ?jq))"
    "processedItems s2 = 8 + int (attempted (metrics s2))"
    "isComplete s2 = (processedItems s2 \<ge> int (length ?jq))"
    "if processedItems s2 \<ge> int (length ?jq) then kv r2 ?key = None
     else storedAs r2 ?key (map jsonQueueItem ?jq) (processedItems s2) ?mc"
    by blast
  have t: "take (nat (CHUNK_SIZE cron)) (drop (nat 8) ?jq) = drop 8 ?jq"
    by (simp add: c8 len)
  have a2: "attempted (metrics s2) = 7" using 2(2) unfolding t by (simp add: len)
  have p2: "processedItems s2 = 15" using 2(3) a2 by simp
  have c2: "isComplete s2" using 2(4) by (simp add: p2 len)
  have k2: "kv r2 ?key = None" using 2(5) by (simp add: p2 len)
  have h2: "handler cron authHeader r1 w1
       = (ChunkDone s2, r2,
          snd (processItems (cronEngine cron) ?mc (drop 8 ?jq) (w1, initialMetrics ?jq)))"
    using 2(1) by (simp only: t)
  from h1 w1_def a1 p1 nc1 st1 h2 a2 p2 c2 k2
  show "\<exists>s1 r1 w1 s2 r2 w2.
          handler cron authHeader redis w = (ChunkDone s1, r1, w1) \<and>
          w1 = snd (processItems (cronEngine cron) ?mc (take 8 queue) (w, initialMetrics queue)) \<and>
          attempted (metrics s1) = 8 \<and> processedItems s1 = 8 \<and> \<not> isComplete s1 \<and>
          storedAs r1 ?key ?jq 8 ?mc \<and>
          handler cron authHeader r1 w1 = (ChunkDone s2, r2, w2) \<and>
          w2 = snd (processItems (cronEngine cron) ?mc (drop 8 ?jq) (w1, initialMetrics ?jq)) \<and>
          attempted (metrics s2) = 7 \<and> processedItems s2 = 15 \<and> isComplete s2 \<and>
          kv r2 ?key = None"
    by blast
next
  assume "0 \<le> CHUNK_SIZE cron \<and> kv redis (queueIdOf (cronToday cron)) = None"
  then have ch: "0 \<le> CHUNK_SIZE cron" and none: "kv redis (queueIdOf (cronToday cron)) = None"
    by simp_all
  from handler_first_run [OF auth day conf users queue store ch none, of w]
  show "\<exists>s' r' w'. handler cron authHeader redis w = (ChunkDone s', r', w') \<and>
          processedItems s' = int (attempted (metrics s')) \<and>
          attempted (metrics s') = length (take (nat (CHUNK_SIZE cron)) queue) \<and>
          isComplete s' = (processedItems s' \<ge> int (length queue)) \<and>
          (if processedItems s' \<ge> int (length queue)
           then kv r' (queueIdOf (cronToday cron)) = None
           else storedAs r' (queueIdOf (cronToday cron)) (map jsonQueueItem queue)
                  (processedItems s') (fetchMarketContext cron))"
    by blast
next
  fix qitems p mc
  assume "0 \<le> CHUNK_SIZE cron \<and> storedAs redis (queueIdOf (cronToday cron)) qitems p mc \<and>
        0 \<le> p \<and> p \<le> int (length qitems)"
  then have ch: "0 \<le> CHUNK_SIZE cron" and s: "storedAs redis (queueIdOf (cronToday cron)) qitems p mc"
    and p: "0 \<le> p" "p \<le> int (length qitems)" by simp_all
  from handler_resume [OF auth day conf store ch s p, of w]
  show "\<exists>s' r' w'. handler cron authHeader redis w = (ChunkDone s', r', w') \<and>
          processedItems s' = p + int (attempted (metrics s')) \<and>
          attempted (metrics s')
            = length (take (nat (CHUNK_SIZE cron)) (drop (nat p) qitems)) \<and>
          isComplete s' = (processedItems s' \<ge> int (length qitems)) \<and>
          (if processedItems s' \<ge> int (length qitems)
           then kv r' (queueIdOf (cronToday cron)) = None
           else storedAs r' (queueIdOf (cronToday cron)) (map jsonQueueItem qitems)
                  (processedItems s') mc)"
    by blast
qed

text \<open>
  Fifteen subjects, chunk size 8, nothing stored: the two invocations of the scenario.
\<close>

theorem chunked_checkpoint_witness:
  "checkNYSEMarketDay exCron \<and> redisConfigured exCron \<and> CHUNK_SIZE exCron = 8 \<and>
   length exCronQueue = 15 \<and> faults emptyRedis = [] \<and>
   kv emptyRedis (queueIdOf (cronToday exCron)) = None \<and>
   (\<exists>s1 r1 w1 s2 r2 w2.
      handler exCron (Some ''Bearer s3cret'') emptyRedis emptyWorld = (ChunkDone s1, r1, w1) \<and>
      w1 = snd (processItems (cronEngine exCron) (fetchMarketContext exCron) (take 8 exCronQueue)
                  (emptyWorld, initialMetrics exCronQueue)) \<and>
      attempted (metrics s1) = 8 \<and> processedItems s1 = 8 \<and> \<not> isComplete s1 \<and>
      storedAs r1 (queueIdOf (cronToday exCron)) (map jsonQueueItem exCronQueue) 8
        (fetchMarketContext exCron) \<and>
      handler exCron (Some ''Bearer s3cret'') r1 w1 = (ChunkDone s2, r2, w2) \<and>
      w2 = snd (processItems (cronEngine exCron) (fetchMarketContext exCron)
                  (drop 8 (map jsonQueueItem exCronQueue))
                  (w1, initialMetrics (map jsonQueueItem exCronQueue))) \<and>
      attempted (metrics s2) = 7 \<and> processedItems s2 = 15 \<and> isComplete s2 \<and>
      kv r2 (queueIdOf (cronToday exCron)) = None)"
proof -
  have auth: "Some ''Bearer s3cret'' = Some (''Bearer '' @ CRON_SECRET exCron)"
    "CRON_SECRET exCron \<noteq> []"
    by (simp_all add: exCron_def)
  have day: "checkNYSEMarketDay exCron"
    by (simp add: checkNYSEMarketDay_def exCron_def holidays2025_def)
  have conf: "redisConfigured exCron" by (simp add: exCron_def)
  have users: "getAllUsers exCron = Some [exUserA]" by (simp add: exCron_def)
  have queue: "exCronQueue = buildPriorityQueue (cronEngineOrder exCron) (cronNow exCron)
     (collectStockRequests (cronNotion exCron) [exUserA])"
    by (simp add: exCronQueue_def)
  have store: "faults emptyRedis = []" by (simp add: emptyRedis_def)
  have c8: "CHUNK_SIZE exCron = 8" by (simp add: exCron_def)
  have len: "length exCronQueue = 15" by code_simp
  have none: "kv emptyRedis (queueIdOf (cronToday exCron)) = None" by (simp add: emptyRedis_def)
  from chunked_checkpoint [OF auth day conf users queue store, of emptyWorld] c8 len none
  have "\<exists>s1 r1 w1 s2 r2 w2.
      handler exCron (Some ''Bearer s3cret'') emptyRedis emptyWorld = (ChunkDone s1, r1, w1) \<and>
      w1 = snd (processItems (cronEngine exCron) (fetchMarketContext exCron) (take 8 exCronQueue)
                  (emptyWorld, initialMetrics exCronQueue)) \<and>
      attempted (metrics s1) = 8 \<and> processedItems s1 = 8 \<and> \<not> isComplete s1 \<and>
      storedAs r1 (queueIdOf (cronToday exCron)) (map jsonQueueItem exCronQueue) 8
        (fetchMarketContext exCron) \<and>
      handler exCron (Some ''Bearer s3cret'') r1 w1 = (ChunkDone s2, r2, w2) \<and>
      w2 = snd (processItems (cronEngine exCron) (fetchMarketContext exCron)
                  (drop 8 (map jsonQueueItem exCronQueue))
                  (w1, initialMetrics (map jsonQueueItem exCronQueue))) \<and>
      attempted (metrics s2) = 7 \<and> processedItems s2 = 15 \<and> isComplete s2 \<and>
      kv r2 (queueIdOf (cronToday exCron)) = None"
    by blast
  with day conf c8 len store none show ?thesis by blast
qed

end
